theory Spec2Isabelle
  imports Complex_Main "HOL-Library.Multiset"
begin

section \<open>Values of the host language\<close>

text \<open>
  A JavaScript \<open>number\<close> is a double. The chart code never computes with the case counts
  it carries: it copies them, tests them against \<open>null\<close> and asks \<open>Number.isFinite\<close>.
  A finite number is therefore modelled by the real it denotes, next to the three
  non-finite doubles. A field of type \<open>number | null\<close> (or an optional one) is a
  \<open>number option\<close>, with \<open>None\<close> for both \<open>null\<close> and \<open>undefined\<close>: the code only ever
  compares such fields with \<open>== null\<close>, \<open>!= null\<close>, \<open>??\<close> and \<open>typeof\<close>.
\<close>

datatype number = Finite real | NaN | PosInfinity | NegInfinity

fun isFinite :: "number \<Rightarrow> bool" where
  "isFinite (Finite x) = True"
| "isFinite NaN = False"
| "isFinite PosInfinity = False"
| "isFinite NegInfinity = False"

text \<open>\<open>a ?? b\<close>: the left operand unless it is \<open>null\<close> or \<open>undefined\<close>.\<close>

definition nullish :: "'a option \<Rightarrow> 'a option \<Rightarrow> 'a option" where
  "nullish a b = (case a of None \<Rightarrow> b | Some v \<Rightarrow> Some v)"

text \<open>\<open>a ?? d\<close> with a default \<open>d\<close> that is never \<open>null\<close>.\<close>

definition orElse :: "'a option \<Rightarrow> 'a \<Rightarrow> 'a" where
  "orElse a d = (case a of None \<Rightarrow> d | Some v \<Rightarrow> v)"

text \<open>
  \<open>new Date(s).getTime()\<close> is a whole number of milliseconds, or \<open>NaN\<close> for a string
  that is no date: an \<open>int option\<close> with \<open>None\<close> for \<open>NaN\<close>. \<open>Date\<close> belongs to the
  host, so the functions below take the parser as their first argument \<open>getTime\<close>.
  Comparisons with \<open>NaN\<close> are false.
\<close>

type_synonym time = "int option"

fun time_le :: "time \<Rightarrow> time \<Rightarrow> bool" where
  "time_le (Some a) (Some b) = (a \<le> b)"
| "time_le _ _ = False"

fun time_less :: "time \<Rightarrow> time \<Rightarrow> bool" where
  "time_less (Some a) (Some b) = (a < b)"
| "time_less _ _ = False"

section \<open>types/forecast.ts\<close>

datatype HistorySource = observed | manual | synthetic | seasonal_clone

text \<open>
  The three point interfaces all carry the field \<open>ds\<close>; it is declared once, in a
  record the three extend.
\<close>

record Dated =
  ds :: string

record HistoryPoint = Dated +
  y :: number
  source :: HistorySource

record ForecastPoint = Dated +
  horizon :: number
  y_pred :: number
  actual :: "number option"

record PendingWeek = Dated +
  prediction :: number

text \<open>
  Of \<open>ForecastResponse\<close> the chart reads the three collections only; the remaining
  fields (district, coordinates, the four date stamps) are left out.
\<close>

record ForecastResponse =
  history :: "HistoryPoint list"
  forecast :: "ForecastPoint list"
  pending_weeks :: "PendingWeek list"

section \<open>ForecastChart: the rows of the chart\<close>

datatype FillSource = fill_synthetic | fill_seasonal_clone | pending

text \<open>
  \<open>point.source as FillSource\<close>: the cast stands in the branch where the source is
  neither \<open>observed\<close> nor \<open>manual\<close>, and is the identity on the two strings left.
\<close>

fun asFillSource :: "HistorySource \<Rightarrow> FillSource" where
  "asFillSource synthetic = fill_synthetic"
| "asFillSource seasonal_clone = fill_seasonal_clone"

record ChartRow =
  date :: string
  actualReal :: "number option"
  filledValue :: "number option"
  filledLineValue :: "number option"
  forecastValue :: "number option"
  actualSource :: "HistorySource option"
  filledSource :: "FillSource option"
  hasHistory :: bool
  hasForecast :: bool
  isPending :: "bool option"
  manualConnector :: "number option"

subsection \<open>The map from date to row\<close>

text \<open>
  \<open>rowsMap\<close> is a \<open>Map<string, ChartRow>\<close>, which iterates in the order of first
  insertion: the list of its rows in that order, each date at most once.
\<close>

definition newRow :: "string \<Rightarrow> ChartRow" where
  "newRow d = \<lparr> date = d, actualReal = None, filledValue = None, filledLineValue = None,
     forecastValue = None, actualSource = None, filledSource = None, hasHistory = False,
     hasForecast = False, isPending = None, manualConnector = None \<rparr>"

definition rowsMap_has :: "ChartRow list \<Rightarrow> string \<Rightarrow> bool" where
  "rowsMap_has rowsMap d = list_ex (\<lambda>r. date r = d) rowsMap"

definition rowsMap_get :: "ChartRow list \<Rightarrow> string \<Rightarrow> ChartRow option" where
  "rowsMap_get rowsMap d = find (\<lambda>r. date r = d) rowsMap"

text \<open>\<open>getRow\<close> adds an empty row for a date the map does not have.\<close>

definition getRow :: "string \<Rightarrow> ChartRow list \<Rightarrow> ChartRow list" where
  "getRow d rowsMap = (if \<not> rowsMap_has rowsMap d then rowsMap @ [newRow d] else rowsMap)"

text \<open>
  The loops write to the row \<open>getRow\<close> returned, which is the object the map holds:
  \<open>updateRow d f\<close> is that write, \<open>f\<close> the assignments.
\<close>

fun modifyRow :: "string \<Rightarrow> (ChartRow \<Rightarrow> ChartRow) \<Rightarrow> ChartRow list \<Rightarrow> ChartRow list" where
  "modifyRow d f [] = []"
| "modifyRow d f (r # rs) = (if date r = d then f r # rs else r # modifyRow d f rs)"

definition updateRow :: "string \<Rightarrow> (ChartRow \<Rightarrow> ChartRow) \<Rightarrow> ChartRow list \<Rightarrow> ChartRow list" where
  "updateRow d f rowsMap = modifyRow d f (getRow d rowsMap)"

subsection \<open>The three merges\<close>

definition mergeHistory :: "HistoryPoint \<Rightarrow> ChartRow \<Rightarrow> ChartRow" where
  "mergeHistory point row0 =
     (let row = row0\<lparr>hasHistory := True\<rparr> in
      if source point = observed \<or> source point = manual
      then row\<lparr>actualReal := Some (y point), actualSource := Some (source point)\<rparr>
      else row\<lparr>filledValue := Some (y point), filledLineValue := Some (y point),
                filledSource := Some (asFillSource (source point))\<rparr>)"

definition mergePending :: "PendingWeek \<Rightarrow> ChartRow \<Rightarrow> ChartRow" where
  "mergePending point row =
     row\<lparr>filledValue := Some (prediction point), filledLineValue := Some (prediction point),
         filledSource := Some pending, isPending := Some True\<rparr>"

text \<open>\<open>typeof v === 'number' && Number.isFinite(v)\<close> on a field that may be \<open>null\<close>.\<close>

definition isFiniteNumber :: "number option \<Rightarrow> bool" where
  "isFiniteNumber v = (case v of None \<Rightarrow> False | Some a \<Rightarrow> isFinite a)"

definition mergeForecast :: "ForecastPoint \<Rightarrow> ChartRow \<Rightarrow> ChartRow" where
  "mergeForecast point row0 =
     (let row = row0\<lparr>hasForecast := True, forecastValue := Some (y_pred point)\<rparr> in
      if actualReal row = None \<and> isFiniteNumber (actual point)
      then row\<lparr>actualReal := actual point, actualSource := Some observed\<rparr>
      else row)"

definition historyStep :: "ChartRow list \<Rightarrow> HistoryPoint \<Rightarrow> ChartRow list" where
  "historyStep rowsMap point = updateRow (ds point) (mergeHistory point) rowsMap"

definition pendingStep :: "ChartRow list \<Rightarrow> PendingWeek \<Rightarrow> ChartRow list" where
  "pendingStep rowsMap point = updateRow (ds point) (mergePending point) rowsMap"

definition forecastStep :: "ChartRow list \<Rightarrow> ForecastPoint \<Rightarrow> ChartRow list" where
  "forecastStep rowsMap point = updateRow (ds point) (mergeForecast point) rowsMap"

text \<open>The three \<open>forEach\<close> loops, in the order of the source; the result is
  \<open>Array.from(rowsMap.values())\<close>.\<close>

definition buildRows :: "ForecastResponse \<Rightarrow> ChartRow list" where
  "buildRows data =
     foldl forecastStep
       (foldl pendingStep (foldl historyStep [] (history data)) (pending_weeks data))
       (forecast data)"

subsection \<open>Sorting by date\<close>

text \<open>
  The comparator is \<open>new Date(a.date).getTime() - new Date(b.date).getTime()\<close>, \<open>NaN\<close>
  when a date does not parse; \<open>sort\<close> reads a \<open>NaN\<close> as \<open>+0\<close>. \<open>Array.prototype.sort\<close>
  is stable; on a comparator that is not a consistent order the result depends on the
  engine, and the model takes insertion from the left, which is what a stable sort
  does on the short arrays of a chart.
\<close>

definition rowTime :: "(string \<Rightarrow> time) \<Rightarrow> ChartRow \<Rightarrow> time" where
  "rowTime getTime row = getTime (date row)"

definition compareRows :: "(string \<Rightarrow> time) \<Rightarrow> ChartRow \<Rightarrow> ChartRow \<Rightarrow> int" where
  "compareRows getTime a b =
     (case (rowTime getTime a, rowTime getTime b) of
        (Some ta, Some tb) \<Rightarrow> ta - tb
      | _ \<Rightarrow> 0)"

fun insertRow :: "(ChartRow \<Rightarrow> ChartRow \<Rightarrow> int) \<Rightarrow> ChartRow \<Rightarrow> ChartRow list \<Rightarrow> ChartRow list" where
  "insertRow cmp x [] = [x]"
| "insertRow cmp x (r # rs) = (if cmp x r < 0 then x # r # rs else r # insertRow cmp x rs)"

definition sortRows :: "(string \<Rightarrow> time) \<Rightarrow> ChartRow list \<Rightarrow> ChartRow list" where
  "sortRows getTime rows = foldl (\<lambda>sorted_rows x. insertRow (compareRows getTime) x sorted_rows) [] rows"

subsection \<open>The manual-connector pass\<close>

text \<open>
  \<open>rows[neighborIdx]\<close> is \<open>undefined\<close> outside the array, at \<open>-1\<close> as well as at
  \<open>rows.length\<close>, so the index is an \<open>int\<close> and the range test is written out.
\<close>

definition linkNeighbor :: "ChartRow list \<Rightarrow> int \<Rightarrow> bool \<Rightarrow> ChartRow list" where
  "linkNeighbor rows neighborIdx suppressForwardFill =
     (if neighborIdx < 0 \<or> int (length rows) \<le> neighborIdx then rows
      else
        let neighbor = rows ! nat neighborIdx in
        if manualConnector neighbor \<noteq> None then rows
        else
          (case nullish (nullish (actualReal neighbor) (filledValue neighbor)) (forecastValue neighbor) of
             None \<Rightarrow> rows
           | Some v \<Rightarrow>
               let linked = neighbor\<lparr>manualConnector := Some v\<rparr> in
               rows[nat neighborIdx :=
                 (if suppressForwardFill \<and> filledLineValue linked \<noteq> None
                  then linked\<lparr>filledLineValue := None\<rparr> else linked)]))"

definition connectRow :: "ChartRow list \<Rightarrow> nat \<Rightarrow> ChartRow list" where
  "connectRow rows idx =
     (let row = rows ! idx in
      if actualSource row = Some manual \<and> actualReal row \<noteq> None
      then
        let rows1 = rows[idx := row\<lparr>manualConnector := actualReal row, filledLineValue := None\<rparr>];
            rows2 = linkNeighbor rows1 (int idx - 1) False
        in linkNeighbor rows2 (int idx + 1) True
      else rows)"

definition manualConnectorPass :: "ChartRow list \<Rightarrow> ChartRow list" where
  "manualConnectorPass rows = foldl connectRow rows [0..<length rows]"

text \<open>\<open>allRows\<close>: the merged timeline.\<close>

definition allRows :: "(string \<Rightarrow> time) \<Rightarrow> ForecastResponse \<Rightarrow> ChartRow list" where
  "allRows getTime data = manualConnectorPass (sortRows getTime (buildRows data))"

subsection \<open>The compact window\<close>

datatype error = TypeError

definition isTimelineRow :: "ChartRow \<Rightarrow> bool" where
  "isTimelineRow row = (hasHistory row \<or> isPending row = Some True)"

text \<open>
  \<open>timelineRows[i].date\<close> throws a \<open>TypeError\<close> when \<open>i\<close> is outside the array, which
  happens for a \<open>historyWindow\<close> that is not positive.
\<close>

definition dateAt :: "ChartRow list \<Rightarrow> int \<Rightarrow> error + string" where
  "dateAt rows i = (if 0 \<le> i \<and> i < int (length rows) then Inr (date (rows ! nat i)) else Inl TypeError)"

definition tailStep :: "(string \<Rightarrow> time) \<Rightarrow> time \<Rightarrow> int \<Rightarrow> int \<times> ChartRow list \<Rightarrow> ChartRow \<Rightarrow> int \<times> ChartRow list" where
  "tailStep getTime windowEndTime forecastWindow st row =
     (case st of (forecastIncluded, forecastTail) \<Rightarrow>
        if time_less windowEndTime (rowTime getTime row) \<and> forecastValue row \<noteq> None
           \<and> forecastIncluded < forecastWindow
        then (forecastIncluded + 1, forecastTail @ [row])
        else (forecastIncluded, forecastTail))"

definition selectWindow :: "(string \<Rightarrow> time) \<Rightarrow> ChartRow list \<Rightarrow> int \<Rightarrow> int \<Rightarrow> error + ChartRow list" where
  "selectWindow getTime rows historyWindow forecastWindow =
     (let timelineRows = filter isTimelineRow rows in
      if timelineRows = [] then Inr rows
      else
        let lastTimelineDate = date (last timelineRows) in
        case (if int (length timelineRows) > historyWindow
              then dateAt timelineRows (int (length timelineRows) - historyWindow)
              else dateAt timelineRows 0) of
          Inl e \<Rightarrow> Inl e
        | Inr windowStartTimeline \<Rightarrow>
            let windowStartTime = getTime windowStartTimeline;
                windowEndTime = getTime lastTimelineDate;
                compactBase = filter (\<lambda>row. time_le windowStartTime (rowTime getTime row)
                                         \<and> time_le (rowTime getTime row) windowEndTime) rows;
                forecastTail = snd (foldl (tailStep getTime windowEndTime forecastWindow) (0, []) rows);
                compact = compactBase @ forecastTail
            in Inr (if compact \<noteq> [] then compact else rows))"

definition compactRows :: "(string \<Rightarrow> time) \<Rightarrow> ForecastResponse \<Rightarrow> int \<Rightarrow> int \<Rightarrow> error + ChartRow list" where
  "compactRows getTime data historyWindow forecastWindow =
     selectWindow getTime (allRows getTime data) historyWindow forecastWindow"

section \<open>DistrictDetailPanel: the boundary to the upstream response\<close>

text \<open>
  \<open>apiData\<close> is what \<open>response.json()\<close> returned: the numeric fields of its items can
  hold any JSON value, which is why \<open>toNumeric\<close> takes an \<open>unknown\<close>. \<open>Number(v)\<close> is
  the host's conversion, the argument \<open>toNumber\<close> of the functions below.
\<close>

datatype JsValue = JUndefined | JNull | JBool bool | JNumber number | JString string | JObject

definition toNumeric :: "(JsValue \<Rightarrow> number) \<Rightarrow> JsValue \<Rightarrow> number option" where
  "toNumeric toNumber v =
     (let parsed = (case v of JString s \<Rightarrow> JNumber (toNumber (JString s)) | _ \<Rightarrow> v) in
      case parsed of
        JNumber n \<Rightarrow> if isFinite n then Some n else None
      | _ \<Rightarrow> None)"

text \<open>
  The items of the response, as the \<open>map\<close> callbacks type them; the fields are named
  after the response keys \<open>cases\<close>, \<open>source\<close>, \<open>h\<close>, \<open>prediction\<close> and \<open>actual\<close>, with the
  collection in front where two records would share a name.
\<close>

record HistoryItem = Dated +
  cases :: JsValue
  history_source :: "HistorySource option"

record ForecastItem = Dated +
  h :: JsValue
  forecast_prediction :: JsValue
  forecast_actual :: JsValue

record PendingItem = Dated +
  pending_prediction :: JsValue

text \<open>A collection of the response that is no array (\<open>None\<close>) becomes the empty one.\<close>

record ApiData =
  api_history :: "HistoryItem list option"
  api_forecast :: "ForecastItem list option"
  api_pending_weeks :: "PendingItem list option"

definition transformHistory :: "(JsValue \<Rightarrow> number) \<Rightarrow> HistoryItem \<Rightarrow> HistoryPoint" where
  "transformHistory toNumber item =
     \<lparr> ds = ds item, y = orElse (toNumeric toNumber (cases item)) (Finite 0),
       source = orElse (history_source item) observed \<rparr>"

definition transformForecast :: "(JsValue \<Rightarrow> number) \<Rightarrow> ForecastItem \<Rightarrow> ForecastPoint" where
  "transformForecast toNumber item =
     \<lparr> ds = ds item,
       horizon = toNumber (case h item of JUndefined \<Rightarrow> JNumber (Finite 0) | JNull \<Rightarrow> JNumber (Finite 0) | v \<Rightarrow> v),
       y_pred = orElse (toNumeric toNumber (forecast_prediction item)) (Finite 0),
       actual = toNumeric toNumber (forecast_actual item) \<rparr>"

definition transformPending :: "(JsValue \<Rightarrow> number) \<Rightarrow> PendingItem \<Rightarrow> PendingWeek" where
  "transformPending toNumber item =
     \<lparr> ds = ds item, prediction = orElse (toNumeric toNumber (pending_prediction item)) (Finite 0) \<rparr>"

definition transformed :: "(JsValue \<Rightarrow> number) \<Rightarrow> ApiData \<Rightarrow> ForecastResponse" where
  "transformed toNumber apiData =
     \<lparr> history = (case api_history apiData of Some items \<Rightarrow> map (transformHistory toNumber) items | None \<Rightarrow> []),
       forecast = (case api_forecast apiData of Some items \<Rightarrow> map (transformForecast toNumber) items | None \<Rightarrow> []),
       pending_weeks = (case api_pending_weeks apiData of Some items \<Rightarrow> map (transformPending toNumber) items | None \<Rightarrow> []) \<rparr>"

section \<open>Dates of the form YYYY-MM-DD\<close>

text \<open>
  The upstream dates are ISO date-only strings. For these \<open>Date\<close> gives midnight UTC
  of the civil date, in milliseconds since 1970-01-01, and \<open>NaN\<close> for a field out of
  range. \<open>isoDateTime\<close> is that instance of the parser; every other string is no date
  for it. The general results below hold for any parser; this one evaluates them on
  concrete timelines.
\<close>

definition digitOf :: "char \<Rightarrow> int option" where
  "digitOf c = map_of [(CHR ''0'', 0), (CHR ''1'', 1), (CHR ''2'', 2), (CHR ''3'', 3), (CHR ''4'', 4),
     (CHR ''5'', 5), (CHR ''6'', 6), (CHR ''7'', 7), (CHR ''8'', 8), (CHR ''9'', 9)] c"

fun decimal :: "int \<Rightarrow> char list \<Rightarrow> int option" where
  "decimal acc [] = Some acc"
| "decimal acc (c # cs) = (case digitOf c of None \<Rightarrow> None | Some d \<Rightarrow> decimal (10 * acc + d) cs)"

definition isLeapYear :: "int \<Rightarrow> bool" where
  "isLeapYear yr = (yr mod 4 = 0 \<and> (yr mod 100 \<noteq> 0 \<or> yr mod 400 = 0))"

definition daysInMonth :: "int \<Rightarrow> int \<Rightarrow> int" where
  "daysInMonth yr mo =
     (if mo = 2 then (if isLeapYear yr then 29 else 28)
      else if mo = 4 \<or> mo = 6 \<or> mo = 9 \<or> mo = 11 then 30 else 31)"

definition daysFromCivil :: "int \<Rightarrow> int \<Rightarrow> int \<Rightarrow> int" where
  "daysFromCivil yr mo dy =
     (let yr' = (if mo \<le> 2 then yr - 1 else yr);
          era = yr' div 400;
          yoe = yr' - era * 400;
          doy = (153 * (if mo > 2 then mo - 3 else mo + 9) + 2) div 5 + dy - 1;
          doe = yoe * 365 + yoe div 4 - yoe div 100 + doy
      in era * 146097 + doe - 719468)"

definition isoDateTime :: "string \<Rightarrow> time" where
  "isoDateTime s =
     (if length s = 10 \<and> s ! 4 = CHR ''-'' \<and> s ! 7 = CHR ''-'' then
        (case (decimal 0 (take 4 s), decimal 0 (take 2 (drop 5 s)), decimal 0 (drop 8 s)) of
           (Some yr, Some mo, Some dy) \<Rightarrow>
             if 1 \<le> mo \<and> mo \<le> 12 \<and> 1 \<le> dy \<and> dy \<le> daysInMonth yr mo
             then Some (daysFromCivil yr mo dy * 86400000) else None
         | _ \<Rightarrow> None)
      else None)"

section \<open>Notions used in the statements and proofs\<close>

text \<open>
  Each of the three loops has the shape \<open>forEach(point => { row = getRow(key(point)); write(point, row) })\<close>.
\<close>

definition writeAll :: "('p \<Rightarrow> string) \<Rightarrow> ('p \<Rightarrow> ChartRow \<Rightarrow> ChartRow) \<Rightarrow> ChartRow list \<Rightarrow> 'p list \<Rightarrow> ChartRow list" where
  "writeAll key upd m ps = foldl (\<lambda>m p. updateRow (key p) (upd p) m) m ps"

text \<open>Every date of the three collections, in the order the loops meet them.\<close>

definition datesOf :: "ForecastResponse \<Rightarrow> string list" where
  "datesOf data = map ds (history data) @ map ds (pending_weeks data) @ map ds (forecast data)"

text \<open>
  What the three loops write for one date: the writes of the points that carry the
  date, to an empty row, history first, then pending weeks, then forecast.
\<close>

definition rowOf :: "ForecastResponse \<Rightarrow> string \<Rightarrow> ChartRow" where
  "rowOf data d =
     foldl (\<lambda>r p. mergeForecast p r)
       (foldl (\<lambda>r p. mergePending p r)
          (foldl (\<lambda>r p. mergeHistory p r) (newRow d) (filter (\<lambda>p. ds p = d) (history data)))
          (filter (\<lambda>p. ds p = d) (pending_weeks data)))
       (filter (\<lambda>p. ds p = d) (forecast data))"

text \<open>The time of a row whose date parses.\<close>

definition timeValue :: "(string \<Rightarrow> time) \<Rightarrow> ChartRow \<Rightarrow> int" where
  "timeValue getTime row = the (rowTime getTime row)"

text \<open>A field the manual-connector pass does not write.\<close>

definition untouched :: "(ChartRow \<Rightarrow> 'a) \<Rightarrow> bool" where
  "untouched f = (\<forall>r a b. f (r\<lparr>manualConnector := a\<rparr>) = f r \<and> f (r\<lparr>filledLineValue := b\<rparr>) = f r)"

text \<open>The test of the pass: a row of a manual correction that has its value.\<close>

definition isManualRow :: "ChartRow \<Rightarrow> bool" where
  "isManualRow row = (actualSource row = Some manual \<and> actualReal row \<noteq> None)"

text \<open>\<open>neighbor.actualReal ?? neighbor.filledValue ?? neighbor.forecastValue\<close>.\<close>

definition bestValue :: "ChartRow \<Rightarrow> number option" where
  "bestValue neighbor = nullish (nullish (actualReal neighbor) (filledValue neighbor)) (forecastValue neighbor)"

text \<open>What \<open>linkNeighbor\<close> does to the neighbour it finds.\<close>

definition linkRow :: "ChartRow \<Rightarrow> bool \<Rightarrow> ChartRow" where
  "linkRow neighbor suppressForwardFill =
     (if manualConnector neighbor \<noteq> None \<or> bestValue neighbor = None then neighbor
      else neighbor\<lparr>manualConnector := bestValue neighbor,
                    filledLineValue := (if suppressForwardFill then None else filledLineValue neighbor)\<rparr>)"

text \<open>
  The pass in closed form, for rows that enter it without a connector value: row \<open>j\<close>
  after the steps \<open>0, ..., k - 1\<close>. \<open>manualAt rows k m\<close> says that step \<open>m\<close> has run
  and found a manual correction.
\<close>

definition manualAt :: "ChartRow list \<Rightarrow> nat \<Rightarrow> nat \<Rightarrow> bool" where
  "manualAt rows k m = (m < k \<and> m < length rows \<and> isManualRow (rows ! m))"

definition connectedUpTo :: "ChartRow list \<Rightarrow> nat \<Rightarrow> nat \<Rightarrow> ChartRow" where
  "connectedUpTo rows k j =
     (let row = rows ! j;
          own = manualAt rows k j;
          afterManual = (0 < j \<and> manualAt rows k (j - 1));
          beforeManual = manualAt rows k (j + 1)
      in row\<lparr>manualConnector := (if own \<or> afterManual \<or> beforeManual then bestValue row else None),
             filledLineValue := (if own \<or> (afterManual \<and> bestValue row \<noteq> None) then None
                                 else filledLineValue row)\<rparr>)"

text \<open>A row and a later state of it: the fill value kept, the fill line kept or cleared.\<close>

definition clearsOnly :: "ChartRow \<Rightarrow> ChartRow \<Rightarrow> bool" where
  "clearsOnly r r' = (filledValue r' = filledValue r
     \<and> (filledLineValue r' = None \<or> filledLineValue r' = filledLineValue r))"

text \<open>The array when \<open>forEach\<close> reaches index \<open>k\<close>: the steps before \<open>k\<close> have run.\<close>

definition passUpTo :: "ChartRow list \<Rightarrow> nat \<Rightarrow> ChartRow list" where
  "passUpTo rows k = foldl connectRow rows [0..<k]"

text \<open>
  The fill line of a row is empty or shows the fill value.
\<close>

definition fillLineConsistent :: "ChartRow \<Rightarrow> bool" where
  "fillLineConsistent r = (filledLineValue r = None \<or> filledLineValue r = filledValue r)"

text \<open>
  The intermediate values of the window computation, named as in the source:
  \<open>timelineRows\<close>, the times of the start and the end of the window, \<open>compactBase\<close> and
  \<open>forecastTail\<close>. The start index \<open>length - historyWindow\<close> is the source's for a
  window shorter than the timeline and \<open>0\<close> otherwise, which is what the subtraction of
  natural numbers gives. \<open>forecastTail\<close> is the loop with its counter, written as the
  first \<open>forecastWindow\<close> rows that pass the test.
\<close>

definition timelineRows :: "ChartRow list \<Rightarrow> ChartRow list" where
  "timelineRows rows = filter isTimelineRow rows"

definition windowStartTime :: "(string \<Rightarrow> time) \<Rightarrow> ChartRow list \<Rightarrow> int \<Rightarrow> time" where
  "windowStartTime getTime rows historyWindow =
     getTime (date (timelineRows rows ! (length (timelineRows rows) - nat historyWindow)))"

definition windowEndTime :: "(string \<Rightarrow> time) \<Rightarrow> ChartRow list \<Rightarrow> time" where
  "windowEndTime getTime rows = getTime (date (last (timelineRows rows)))"

definition compactBase :: "(string \<Rightarrow> time) \<Rightarrow> ChartRow list \<Rightarrow> int \<Rightarrow> ChartRow list" where
  "compactBase getTime rows historyWindow =
     filter (\<lambda>row. time_le (windowStartTime getTime rows historyWindow) (rowTime getTime row)
                  \<and> time_le (rowTime getTime row) (windowEndTime getTime rows)) rows"

definition forecastTail :: "(string \<Rightarrow> time) \<Rightarrow> ChartRow list \<Rightarrow> int \<Rightarrow> ChartRow list" where
  "forecastTail getTime rows forecastWindow =
     take (nat forecastWindow)
       (filter (\<lambda>row. time_less (windowEndTime getTime rows) (rowTime getTime row)
                     \<and> forecastValue row \<noteq> None) rows)"

text \<open>A timeline in strictly ascending order of time, every date a calendar date.\<close>

definition ascending :: "(string \<Rightarrow> time) \<Rightarrow> ChartRow list \<Rightarrow> bool" where
  "ascending getTime rows =
     (list_all (\<lambda>r. rowTime getTime r \<noteq> None) rows
      \<and> sorted_wrt (\<lambda>a b. timeValue getTime a < timeValue getTime b) rows)"

text \<open>
  A channel value that a chart can plot: \<open>null\<close> or a finite number.
\<close>

definition finiteOrNull :: "number option \<Rightarrow> bool" where
  "finiteOrNull v = (case v of None \<Rightarrow> True | Some n \<Rightarrow> isFinite n)"

definition channelsFinite :: "ChartRow \<Rightarrow> bool" where
  "channelsFinite r =
     (finiteOrNull (actualReal r) \<and> finiteOrNull (filledValue r) \<and> finiteOrNull (filledLineValue r)
      \<and> finiteOrNull (forecastValue r) \<and> finiteOrNull (manualConnector r))"

text \<open>
  The collections as the boundary hands them on: every case count and prediction
  finite, every attached actual finite or \<open>null\<close>.
\<close>

definition finiteResponse :: "ForecastResponse \<Rightarrow> bool" where
  "finiteResponse data =
     (list_all (\<lambda>p. isFinite (y p)) (history data)
      \<and> list_all (\<lambda>p. isFinite (prediction p)) (pending_weeks data)
      \<and> list_all (\<lambda>p. isFinite (y_pred p) \<and> finiteOrNull (actual p)) (forecast data))"

text \<open>
  The dates in the order in which the map receives them: those of the history, then
  those of the pending weeks that are new, then those of the forecast that are new.
\<close>

definition insertionOrder :: "ForecastResponse \<Rightarrow> string list" where
  "insertionOrder data =
     (let historyDates = map ds (history data);
          pendingDates = filter (\<lambda>d. d \<notin> set historyDates) (map ds (pending_weeks data));
          forecastDates = filter (\<lambda>d. d \<notin> set (historyDates @ pendingDates)) (map ds (forecast data))
      in historyDates @ pendingDates @ forecastDates)"

section \<open>Concrete timelines\<close>

text \<open>
  Two observed weeks that arrive in reverse order and one forecast week after them.
\<close>

definition weeks_unordered :: ForecastResponse where
  "weeks_unordered =
     \<lparr> history = [\<lparr> ds = ''2024-01-08'', y = Finite 5, source = observed \<rparr>,
                  \<lparr> ds = ''2024-01-01'', y = Finite 3, source = observed \<rparr>],
       forecast = [\<lparr> ds = ''2024-01-15'', horizon = Finite 1, y_pred = Finite 9, actual = None \<rparr>],
       pending_weeks = [] \<rparr>"

text \<open>A manual correction between two observed weeks.\<close>

definition weeks_manual_between :: ForecastResponse where
  "weeks_manual_between =
     \<lparr> history = [\<lparr> ds = ''2024-01-01'', y = Finite 3, source = observed \<rparr>,
                  \<lparr> ds = ''2024-01-08'', y = Finite 6, source = manual \<rparr>,
                  \<lparr> ds = ''2024-01-15'', y = Finite 4, source = observed \<rparr>],
       forecast = [],
       pending_weeks = [] \<rparr>"

text \<open>
  An observed week whose date the forecast repeats with an attached actual, a forecast
  week with no actual and one with an actual.
\<close>

definition observed_and_forecast_actual :: ForecastResponse where
  "observed_and_forecast_actual =
     \<lparr> history = [\<lparr> ds = ''2024-01-01'', y = Finite 3, source = observed \<rparr>],
       forecast = [\<lparr> ds = ''2024-01-01'', horizon = Finite 1, y_pred = Finite 9, actual = Some (Finite 8) \<rparr>,
                   \<lparr> ds = ''2024-01-08'', horizon = Finite 2, y_pred = Finite 11, actual = None \<rparr>,
                   \<lparr> ds = ''2024-01-15'', horizon = Finite 3, y_pred = Finite 12, actual = Some (Finite 7) \<rparr>],
       pending_weeks = [] \<rparr>"

text \<open>
  A manual correction, and after it a week that is both a synthetic history point and
  a pending week.
\<close>

definition pending_after_manual :: ForecastResponse where
  "pending_after_manual =
     \<lparr> history = [\<lparr> ds = ''2024-01-01'', y = Finite 6, source = manual \<rparr>,
                  \<lparr> ds = ''2024-01-08'', y = Finite 2, source = synthetic \<rparr>],
       forecast = [],
       pending_weeks = [\<lparr> ds = ''2024-01-08'', prediction = Finite 7 \<rparr>] \<rparr>"

text \<open>
  The same with an observed week in front instead of the manual correction.
\<close>

definition pending_over_synthetic :: ForecastResponse where
  "pending_over_synthetic =
     \<lparr> history = [\<lparr> ds = ''2024-01-01'', y = Finite 3, source = observed \<rparr>,
                  \<lparr> ds = ''2024-01-08'', y = Finite 2, source = synthetic \<rparr>],
       forecast = [],
       pending_weeks = [\<lparr> ds = ''2024-01-08'', prediction = Finite 7 \<rparr>] \<rparr>"

text \<open>
  A district with no history yet: three forecast weeks and nothing else.
\<close>

definition forecast_only :: ForecastResponse where
  "forecast_only =
     \<lparr> history = [],
       forecast = [\<lparr> ds = ''2024-01-15'', horizon = Finite 1, y_pred = Finite 9, actual = None \<rparr>,
                   \<lparr> ds = ''2024-01-22'', horizon = Finite 2, y_pred = Finite 11, actual = Some (Finite 10) \<rparr>,
                   \<lparr> ds = ''2024-01-29'', horizon = Finite 3, y_pred = Finite 12, actual = None \<rparr>],
       pending_weeks = [] \<rparr>"

text \<open>
  Three weeks of history, the last one synthetic, and two forecast weeks after them, the
  first with an attached actual.
\<close>

definition history_then_forecast :: ForecastResponse where
  "history_then_forecast =
     \<lparr> history = [\<lparr> ds = ''2024-01-01'', y = Finite 3, source = observed \<rparr>,
                  \<lparr> ds = ''2024-01-08'', y = Finite 5, source = observed \<rparr>,
                  \<lparr> ds = ''2024-01-15'', y = Finite 4, source = synthetic \<rparr>],
       forecast = [\<lparr> ds = ''2024-01-22'', horizon = Finite 1, y_pred = Finite 9, actual = Some (Finite 8) \<rparr>,
                   \<lparr> ds = ''2024-01-29'', horizon = Finite 2, y_pred = Finite 11, actual = None \<rparr>],
       pending_weeks = [] \<rparr>"

text \<open>
  Thirty observed weeks from 2024-01-01 and three forecast weeks after them.
\<close>

definition thirty_weeks :: ForecastResponse where
  "thirty_weeks =
     \<lparr> history = [\<lparr> ds = ''2024-01-01'', y = Finite 3, source = observed \<rparr>,
                  \<lparr> ds = ''2024-01-08'', y = Finite 10, source = observed \<rparr>,
                  \<lparr> ds = ''2024-01-15'', y = Finite 6, source = observed \<rparr>,
                  \<lparr> ds = ''2024-01-22'', y = Finite 13, source = observed \<rparr>,
                  \<lparr> ds = ''2024-01-29'', y = Finite 9, source = observed \<rparr>,
                  \<lparr> ds = ''2024-02-05'', y = Finite 5, source = observed \<rparr>,
                  \<lparr> ds = ''2024-02-12'', y = Finite 12, source = observed \<rparr>,
                  \<lparr> ds = ''2024-02-19'', y = Finite 8, source = observed \<rparr>,
                  \<lparr> ds = ''2024-02-26'', y = Finite 4, source = observed \<rparr>,
                  \<lparr> ds = ''2024-03-04'', y = Finite 11, source = observed \<rparr>,
                  \<lparr> ds = ''2024-03-11'', y = Finite 7, source = observed \<rparr>,
                  \<lparr> ds = ''2024-03-18'', y = Finite 3, source = observed \<rparr>,
                  \<lparr> ds = ''2024-03-25'', y = Finite 10, source = observed \<rparr>,
                  \<lparr> ds = ''2024-04-01'', y = Finite 6, source = observed \<rparr>,
                  \<lparr> ds = ''2024-04-08'', y = Finite 13, source = observed \<rparr>,
                  \<lparr> ds = ''2024-04-15'', y = Finite 9, source = observed \<rparr>,
                  \<lparr> ds = ''2024-04-22'', y = Finite 5, source = observed \<rparr>,
                  \<lparr> ds = ''2024-04-29'', y = Finite 12, source = observed \<rparr>,
                  \<lparr> ds = ''2024-05-06'', y = Finite 8, source = observed \<rparr>,
                  \<lparr> ds = ''2024-05-13'', y = Finite 4, source = observed \<rparr>,
                  \<lparr> ds = ''2024-05-20'', y = Finite 11, source = observed \<rparr>,
                  \<lparr> ds = ''2024-05-27'', y = Finite 7, source = observed \<rparr>,
                  \<lparr> ds = ''2024-06-03'', y = Finite 3, source = observed \<rparr>,
                  \<lparr> ds = ''2024-06-10'', y = Finite 10, source = observed \<rparr>,
                  \<lparr> ds = ''2024-06-17'', y = Finite 6, source = observed \<rparr>,
                  \<lparr> ds = ''2024-06-24'', y = Finite 13, source = observed \<rparr>,
                  \<lparr> ds = ''2024-07-01'', y = Finite 9, source = observed \<rparr>,
                  \<lparr> ds = ''2024-07-08'', y = Finite 5, source = observed \<rparr>,
                  \<lparr> ds = ''2024-07-15'', y = Finite 12, source = observed \<rparr>,
                  \<lparr> ds = ''2024-07-22'', y = Finite 8, source = observed \<rparr>],
       forecast = [\<lparr> ds = ''2024-07-29'', horizon = Finite 1, y_pred = Finite 9, actual = None \<rparr>,
                   \<lparr> ds = ''2024-08-05'', horizon = Finite 2, y_pred = Finite 10, actual = None \<rparr>,
                   \<lparr> ds = ''2024-08-12'', horizon = Finite 3, y_pred = Finite 11, actual = None \<rparr>],
       pending_weeks = [] \<rparr>"

text \<open>
  \<open>Number\<close> applied to a number is that number. The responses below hold no string,
  so this is the only conversion they ask for; the value for other arguments is never
  used.
\<close>

definition numberOfNumber :: "JsValue \<Rightarrow> number" where
  "numberOfNumber v = (case v of JNumber n \<Rightarrow> n | _ \<Rightarrow> NaN)"

text \<open>
  A response with a history week whose \<open>cases\<close> is \<open>null\<close>, a forecast week whose
  \<open>actual\<close> overflowed to \<open>Infinity\<close> when the JSON was read, and \<open>pending_weeks\<close>
  missing.
\<close>

definition response_with_invalid_fields :: ApiData where
  "response_with_invalid_fields =
     \<lparr> api_history = Some [\<lparr> ds = ''2024-01-01'', cases = JNumber (Finite 3), history_source = None \<rparr>,
                           \<lparr> ds = ''2024-01-08'', cases = JNull, history_source = Some observed \<rparr>],
       api_forecast = Some [\<lparr> ds = ''2024-01-15'', h = JNumber (Finite 1),
                              forecast_prediction = JNumber (Finite 9),
                              forecast_actual = JNumber PosInfinity \<rparr>],
       api_pending_weeks = None \<rparr>"

text \<open>
  The collections of \<open>history_then_forecast\<close> in another order.
\<close>

definition weeks_reordered :: ForecastResponse where
  "weeks_reordered =
     \<lparr> history = [\<lparr> ds = ''2024-01-15'', y = Finite 4, source = synthetic \<rparr>,
                  \<lparr> ds = ''2024-01-01'', y = Finite 3, source = observed \<rparr>,
                  \<lparr> ds = ''2024-01-08'', y = Finite 5, source = observed \<rparr>],
       forecast = [\<lparr> ds = ''2024-01-29'', horizon = Finite 2, y_pred = Finite 11, actual = None \<rparr>,
                   \<lparr> ds = ''2024-01-22'', horizon = Finite 1, y_pred = Finite 9, actual = Some (Finite 8) \<rparr>],
       pending_weeks = [] \<rparr>"

section \<open>Lemmas\<close>

subsection \<open>The map from date to row\<close>

lemma rowsMap_has_iff: "rowsMap_has m d \<longleftrightarrow> d \<in> set (map date m)"
  by (auto simp: rowsMap_has_def list_ex_iff)

lemma rowsMap_get_None: "rowsMap_get m d = None \<longleftrightarrow> d \<notin> set (map date m)"
  by (auto simp: rowsMap_get_def find_None_iff)

lemma rowsMap_get_date: "rowsMap_get m d = Some r \<Longrightarrow> date r = d \<and> r \<in> set m"
  unfolding rowsMap_get_def by (induction m) (auto split: if_splits)

lemma rowsMap_get_Some:
  "distinct (map date m) \<Longrightarrow> rowsMap_get m d = Some r \<longleftrightarrow> (r \<in> set m \<and> date r = d)"
  unfolding rowsMap_get_def by (induction m) (auto split: if_splits)

lemma map_date_modifyRow:
  "(\<And>r. date (f r) = date r) \<Longrightarrow> map date (modifyRow d f m) = map date m"
  by (induction m) auto

lemma map_date_updateRow:
  assumes "\<And>r. date (f r) = date r"
  shows "map date (updateRow d f m) = (if d \<in> set (map date m) then map date m else map date m @ [d])"
  using assms by (simp add: updateRow_def getRow_def rowsMap_has_iff map_date_modifyRow newRow_def)

lemma rowsMap_get_modifyRow:
  assumes "\<And>r. date (f r) = date r"
  shows "rowsMap_get (modifyRow d f m) d' = (if d' = d then map_option f (rowsMap_get m d) else rowsMap_get m d')"
  using assms unfolding rowsMap_get_def by (induction m) auto

lemma rowsMap_get_append_new:
  "rowsMap_get (m @ [newRow d]) d' = (case rowsMap_get m d' of Some r \<Rightarrow> Some r | None \<Rightarrow> if d' = d then Some (newRow d) else None)"
  unfolding rowsMap_get_def by (induction m) (auto simp: newRow_def)

lemma rowsMap_get_updateRow:
  assumes "\<And>r. date (f r) = date r"
  shows "rowsMap_get (updateRow d f m) d' =
    (if d' = d then Some (f (orElse (rowsMap_get m d) (newRow d))) else rowsMap_get m d')"
proof (cases "rowsMap_has m d")
  case True
  then obtain r where "rowsMap_get m d = Some r"
    using rowsMap_get_None [of m d] by (auto simp: rowsMap_has_iff)
  with True show ?thesis
    by (simp add: updateRow_def getRow_def rowsMap_get_modifyRow [OF assms] orElse_def)
next
  case False
  then have "rowsMap_get m d = None"
    by (simp add: rowsMap_get_None rowsMap_has_iff)
  with False show ?thesis
    by (auto simp: updateRow_def getRow_def rowsMap_get_modifyRow [OF assms] orElse_def
        rowsMap_get_append_new split: option.splits)
qed

lemma writeAll_Nil [simp]: "writeAll key upd m [] = m"
  by (simp add: writeAll_def)

lemma writeAll_Cons [simp]: "writeAll key upd m (p # ps) = writeAll key upd (updateRow (key p) (upd p) m) ps"
  by (simp add: writeAll_def)

lemma set_date_writeAll:
  assumes "\<And>p r. date (upd p r) = date r"
  shows "date ` set (writeAll key upd m ps) = date ` set m \<union> key ` set ps"
proof (induction ps arbitrary: m)
  case Nil
  show ?case by simp
next
  case (Cons p ps)
  have "set (map date (updateRow (key p) (upd p) m)) = insert (key p) (set (map date m))"
    by (subst map_date_updateRow) (auto simp: assms)
  then have "date ` set (updateRow (key p) (upd p) m) = insert (key p) (date ` set m)"
    by simp
  with Cons show ?case by simp
qed

lemma distinct_date_writeAll:
  assumes "\<And>p r. date (upd p r) = date r" and "distinct (map date m)"
  shows "distinct (map date (writeAll key upd m ps))"
  using assms(2)
proof (induction ps arbitrary: m)
  case Nil
  then show ?case by simp
next
  case (Cons p ps)
  have "distinct (map date (updateRow (key p) (upd p) m))"
    using Cons.prems by (subst map_date_updateRow) (auto simp: assms(1))
  then show ?case using Cons.IH by simp
qed

lemma rowsMap_get_writeAll:
  assumes "\<And>p r. date (upd p r) = date r"
  shows "rowsMap_get (writeAll key upd m ps) d =
    (if filter (\<lambda>p. key p = d) ps = [] then rowsMap_get m d
     else Some (foldl (\<lambda>r p. upd p r) (orElse (rowsMap_get m d) (newRow d)) (filter (\<lambda>p. key p = d) ps)))"
proof (induction ps arbitrary: m)
  case Nil
  show ?case by simp
next
  case (Cons p ps)
  show ?case
    by (simp add: Cons.IH rowsMap_get_updateRow assms orElse_def)
qed

subsection \<open>The three merges\<close>

lemma date_mergeHistory [simp]: "date (mergeHistory p r) = date r"
  by (simp add: mergeHistory_def Let_def)

lemma date_mergePending [simp]: "date (mergePending p r) = date r"
  by (simp add: mergePending_def)

lemma date_mergeForecast [simp]: "date (mergeForecast p r) = date r"
  by (simp add: mergeForecast_def Let_def)

lemma buildRows_writeAll:
  "buildRows data =
     writeAll ds mergeForecast
       (writeAll ds mergePending (writeAll ds mergeHistory [] (history data)) (pending_weeks data))
       (forecast data)"
  by (simp add: buildRows_def writeAll_def historyStep_def [abs_def] pendingStep_def [abs_def]
      forecastStep_def [abs_def])

lemma set_date_buildRows: "date ` set (buildRows data) = set (datesOf data)"
  by (simp add: buildRows_writeAll set_date_writeAll datesOf_def Un_assoc)

lemma distinct_date_buildRows: "distinct (map date (buildRows data))"
  by (simp add: buildRows_writeAll distinct_date_writeAll)

lemma rowsMap_get_Nil [simp]: "rowsMap_get [] d = None"
  by (simp add: rowsMap_get_def)

lemma rowsMap_get_buildRows:
  "rowsMap_get (buildRows data) d = (if d \<in> set (datesOf data) then Some (rowOf data d) else None)"
proof -
  show ?thesis
    unfolding buildRows_writeAll rowOf_def datesOf_def
    by (auto simp: rowsMap_get_writeAll orElse_def filter_empty_conv)
qed

lemma rowOf_in_buildRows:
  "r \<in> set (buildRows data) \<longleftrightarrow> (date r \<in> set (datesOf data) \<and> r = rowOf data (date r))"
  using rowsMap_get_Some [OF distinct_date_buildRows, of data "date r" r]
  by (auto simp: rowsMap_get_buildRows split: if_splits)

subsection \<open>Sorting\<close>

lemma mset_insertRow [simp]: "mset (insertRow cmp x rs) = add_mset x (mset rs)"
  by (induction rs) auto

lemma mset_foldl_insertRow:
  "mset (foldl (\<lambda>acc x. insertRow cmp x acc) acc xs) = mset acc + mset xs"
  by (induction xs arbitrary: acc) auto

lemma mset_sortRows [simp]: "mset (sortRows getTime rows) = mset rows"
  by (simp add: sortRows_def mset_foldl_insertRow)

lemma set_sortRows [simp]: "set (sortRows getTime rows) = set rows"
  by (metis mset_sortRows set_mset_mset)

lemma length_sortRows [simp]: "length (sortRows getTime rows) = length rows"
  by (metis mset_sortRows size_mset)

lemma compareRows_valid:
  "rowTime getTime a \<noteq> None \<Longrightarrow> rowTime getTime b \<noteq> None \<Longrightarrow>
   compareRows getTime a b = timeValue getTime a - timeValue getTime b"
  by (auto simp: compareRows_def timeValue_def)

lemma set_insertRow [simp]: "set (insertRow cmp x rs) = insert x (set rs)"
  by (metis mset_insertRow set_mset_add_mset_insert set_mset_mset)

lemma sorted_insertRow:
  assumes "rowTime getTime x \<noteq> None" and "\<forall>r\<in>set rs. rowTime getTime r \<noteq> None"
    and "sorted (map (timeValue getTime) rs)"
  shows "sorted (map (timeValue getTime) (insertRow (compareRows getTime) x rs))"
  using assms
proof (induction rs)
  case Nil
  then show ?case by simp
next
  case (Cons r rs)
  then show ?case
    by (auto simp: compareRows_valid)
qed

lemma sorted_foldl_insertRow:
  assumes "\<forall>r\<in>set xs. rowTime getTime r \<noteq> None" and "\<forall>r\<in>set acc. rowTime getTime r \<noteq> None"
    and "sorted (map (timeValue getTime) acc)"
  shows "sorted (map (timeValue getTime) (foldl (\<lambda>acc x. insertRow (compareRows getTime) x acc) acc xs))"
  using assms
proof (induction xs arbitrary: acc)
  case Nil
  then show ?case by simp
next
  case (Cons x xs)
  show ?case
    using Cons.prems by (auto intro!: Cons.IH sorted_insertRow)
qed

lemma sorted_sortRows:
  "\<forall>r\<in>set rows. rowTime getTime r \<noteq> None \<Longrightarrow> sorted (map (timeValue getTime) (sortRows getTime rows))"
  unfolding sortRows_def by (rule sorted_foldl_insertRow) auto

lemma distinct_date_sortRows:
  "distinct (map date (sortRows getTime rows)) = distinct (map date rows)"
proof -
  have "mset (map date (sortRows getTime rows)) = mset (map date rows)"
    by simp
  then show ?thesis by (metis mset_eq_imp_distinct_iff)
qed

subsection \<open>The manual-connector pass\<close>

lemma length_linkNeighbor [simp]: "length (linkNeighbor rows i b) = length rows"
  by (simp add: linkNeighbor_def Let_def split: option.splits)

lemma length_connectRow [simp]: "length (connectRow rows i) = length rows"
  by (simp add: connectRow_def Let_def)

lemma length_foldl_connectRow [simp]: "length (foldl connectRow rows ns) = length rows"
  by (induction ns arbitrary: rows) auto

lemma length_manualConnectorPass [simp]: "length (manualConnectorPass rows) = length rows"
  by (simp add: manualConnectorPass_def)

lemma map_update_same:
  assumes "f x = f (xs ! i)"
  shows "map f (xs[i := x]) = map f xs"
proof (cases "i < length xs")
  case True
  with assms show ?thesis by (simp add: map_update list_update_same_conv)
next
  case False
  then have "xs[i := x] = xs" by (metis list_update_beyond not_less)
  then show ?thesis by simp
qed

lemma map_linkNeighbor:
  assumes "untouched f"
  shows "map f (linkNeighbor rows i b) = map f rows"
  using assms
  by (auto simp: linkNeighbor_def Let_def untouched_def intro!: map_update_same split: option.splits)

lemma map_connectRow:
  assumes "untouched f"
  shows "map f (connectRow rows i) = map f rows"
  using assms
  by (auto simp: connectRow_def Let_def map_linkNeighbor untouched_def intro!: map_update_same)

lemma map_foldl_connectRow:
  assumes "untouched f"
  shows "map f (foldl connectRow rows ns) = map f rows"
  by (induction ns arbitrary: rows) (simp_all add: map_connectRow [OF assms])

lemma map_manualConnectorPass:
  "untouched f \<Longrightarrow> map f (manualConnectorPass rows) = map f rows"
  by (simp add: manualConnectorPass_def map_foldl_connectRow)

lemma untouched_fields [simp]:
  "untouched date" "untouched actualReal" "untouched actualSource" "untouched filledValue"
  "untouched filledSource" "untouched forecastValue" "untouched hasHistory"
  "untouched hasForecast" "untouched isPending" "untouched isTimelineRow"
  "untouched (rowTime getTime)" "untouched (timeValue getTime)"
  by (simp_all add: untouched_def isTimelineRow_def rowTime_def timeValue_def)

lemma nth_manualConnectorPass:
  "untouched f \<Longrightarrow> i < length rows \<Longrightarrow> f (manualConnectorPass rows ! i) = f (rows ! i)"
  by (metis length_manualConnectorPass map_manualConnectorPass nth_map)

lemma linkRow_cases:
  "linkRow r b =
     (if manualConnector r \<noteq> None then r
      else case bestValue r of
        None \<Rightarrow> r
      | Some v \<Rightarrow>
          (if b \<and> filledLineValue (r\<lparr>manualConnector := Some v\<rparr>) \<noteq> None
           then r\<lparr>manualConnector := Some v\<rparr>\<lparr>filledLineValue := None\<rparr>
           else r\<lparr>manualConnector := Some v\<rparr>))"
  by (cases r) (auto simp: linkRow_def split: option.splits)

lemma linkNeighbor_linkRow:
  "linkNeighbor rows i b =
     (if 0 \<le> i \<and> i < int (length rows) then rows[nat i := linkRow (rows ! nat i) b] else rows)"
  by (auto simp: linkNeighbor_def linkRow_cases bestValue_def Let_def split: option.splits)

lemma nth_linkNeighbor:
  "j < length rows \<Longrightarrow>
   linkNeighbor rows i b ! j = (if int j = i then linkRow (rows ! j) b else rows ! j)"
  by (auto simp: linkNeighbor_linkRow nth_list_update)

lemma nth_connectRow:
  assumes "j < length rows" and "k < length rows"
  shows "connectRow rows k ! j =
    (if \<not> isManualRow (rows ! k) then rows ! j
     else if j = k then (rows ! k)\<lparr>manualConnector := actualReal (rows ! k), filledLineValue := None\<rparr>
     else if j + 1 = k then linkRow (rows ! j) False
     else if j = k + 1 then linkRow (rows ! j) True
     else rows ! j)"
proof (cases "isManualRow (rows ! k)")
  case False
  then have "connectRow rows k = rows"
    by (auto simp: connectRow_def isManualRow_def Let_def)
  with False show ?thesis by simp
next
  case True
  let ?own = "(rows ! k)\<lparr>manualConnector := actualReal (rows ! k), filledLineValue := None\<rparr>"
  have own_link: "linkRow ?own b = ?own" for b
    using True by (simp add: linkRow_def isManualRow_def)
  have c: "connectRow rows k =
      linkNeighbor (linkNeighbor (rows[k := ?own]) (int k - 1) False) (int k + 1) True"
    using True by (simp add: connectRow_def isManualRow_def Let_def)
  show ?thesis
    using assms True unfolding c
    by (auto simp: nth_linkNeighbor nth_list_update own_link)
qed

lemma bestValue_update [simp]:
  "bestValue (r\<lparr>manualConnector := a\<rparr>) = bestValue r"
  "bestValue (r\<lparr>filledLineValue := b\<rparr>) = bestValue r"
  by (simp_all add: bestValue_def)

lemma isManualRow_update [simp]:
  "isManualRow (r\<lparr>manualConnector := a\<rparr>) = isManualRow r"
  "isManualRow (r\<lparr>filledLineValue := b\<rparr>) = isManualRow r"
  by (simp_all add: isManualRow_def)

lemma isManualRow_bestValue: "isManualRow r \<Longrightarrow> bestValue r = actualReal r"
  by (auto simp: isManualRow_def bestValue_def nullish_def)

lemma isManualRow_bestValue_Some: "isManualRow r \<Longrightarrow> bestValue r \<noteq> None"
  by (auto simp: isManualRow_def bestValue_def nullish_def)

lemma connectedUpTo_fields [simp]:
  "isManualRow (connectedUpTo rows k j) = isManualRow (rows ! j)"
  "bestValue (connectedUpTo rows k j) = bestValue (rows ! j)"
  "actualReal (connectedUpTo rows k j) = actualReal (rows ! j)"
  by (simp_all add: connectedUpTo_def Let_def)

lemma manualAt_0 [simp]: "manualAt rows 0 m = False"
  by (simp add: manualAt_def)

lemma manualAt_Suc:
  "manualAt rows (Suc k) m = (manualAt rows k m \<or> (m = k \<and> k < length rows \<and> isManualRow (rows ! k)))"
  by (auto simp: manualAt_def less_Suc_eq)

lemma connectedUpTo_0:
  "manualConnector (rows ! j) = None \<Longrightarrow> connectedUpTo rows 0 j = rows ! j"
  by (cases "rows ! j") (simp add: connectedUpTo_def)

lemma linkRow_backward:
  "linkRow (r\<lparr>manualConnector := (if c then bestValue r else None), filledLineValue := l\<rparr>) False
     = r\<lparr>manualConnector := bestValue r, filledLineValue := l\<rparr>"
  by (cases "bestValue r"; cases c) (simp_all add: linkRow_def)

lemma linkRow_forward_unset:
  "linkRow (r\<lparr>manualConnector := None\<rparr>) True
     = r\<lparr>manualConnector := bestValue r, filledLineValue := (if bestValue r \<noteq> None then None else filledLineValue r)\<rparr>"
  by (cases "bestValue r") (simp_all add: linkRow_def)

lemma connectedUpTo_Suc:
  assumes "k < length rows" and "j < length rows"
  shows "connectedUpTo rows (Suc k) j =
    (if \<not> isManualRow (rows ! k) then connectedUpTo rows k j
     else if j = k then (connectedUpTo rows k k)\<lparr>manualConnector := actualReal (rows ! k), filledLineValue := None\<rparr>
     else if j + 1 = k then linkRow (connectedUpTo rows k j) False
     else if j = k + 1 then linkRow (connectedUpTo rows k j) True
     else connectedUpTo rows k j)"
proof (cases "isManualRow (rows ! k)")
  case False
  then show ?thesis
    by (simp add: connectedUpTo_def Let_def manualAt_Suc)
next
  case True
  consider (own) "j = k" | (before) "j + 1 = k" | (after) "j = k + 1" | (far) "j \<noteq> k" "j + 1 \<noteq> k" "j \<noteq> k + 1"
    by blast
  then show ?thesis
  proof cases
    case own
    then show ?thesis
      using True assms by (simp add: connectedUpTo_def Let_def manualAt_Suc isManualRow_bestValue)
  next
    case before
    have b: "manualAt rows k (j + 1) = False"
      using before by (simp add: manualAt_def)
    have "connectedUpTo rows (Suc k) j =
        (rows ! j)\<lparr>manualConnector := bestValue (rows ! j),
          filledLineValue := (if manualAt rows k j \<or> (0 < j \<and> manualAt rows k (j - 1)) \<and> bestValue (rows ! j) \<noteq> None
                              then None else filledLineValue (rows ! j))\<rparr>"
      using True before assms by (auto simp: connectedUpTo_def Let_def manualAt_Suc)
    also have "\<dots> = linkRow (connectedUpTo rows k j) False"
      unfolding connectedUpTo_def Let_def b
      by (simp only: linkRow_backward [symmetric] simp_thms)
    finally show ?thesis
      using True before by simp
  next
    case after
    have a: "manualAt rows k j = False" "manualAt rows k (j - 1) = False" "manualAt rows k (j + 1) = False"
      using after by (simp_all add: manualAt_def)
    have "connectedUpTo rows (Suc k) j =
        (rows ! j)\<lparr>manualConnector := bestValue (rows ! j),
          filledLineValue := (if bestValue (rows ! j) \<noteq> None then None else filledLineValue (rows ! j))\<rparr>"
      using True after assms a by (auto simp: connectedUpTo_def Let_def manualAt_Suc)
    also have "\<dots> = linkRow (connectedUpTo rows k j) True"
      unfolding connectedUpTo_def Let_def a
      by (simp add: linkRow_forward_unset)
    finally show ?thesis
      using True after by simp
  next
    case far
    then have "j - 1 \<noteq> k \<or> j = 0" by auto
    then show ?thesis
      using True far by (auto simp: connectedUpTo_def Let_def manualAt_Suc)
  qed
qed

lemma pass_prefix:
  assumes "\<forall>r\<in>set rows. manualConnector r = None" and "k \<le> length rows"
  shows "foldl connectRow rows [0..<k] = map (connectedUpTo rows k) [0..<length rows]"
  using assms(2)
proof (induction k)
  case 0
  show ?case
    using assms(1) by (auto intro!: nth_equalityI simp: connectedUpTo_0)
next
  case (Suc k)
  let ?B = "map (connectedUpTo rows k) [0..<length rows]"
  have k: "k < length rows" using Suc.prems by simp
  have B: "foldl connectRow rows [0..<k] = ?B"
    using Suc by simp
  have "foldl connectRow rows [0..<Suc k] = connectRow ?B k"
    by (simp add: B)
  also have "\<dots> = map (connectedUpTo rows (Suc k)) [0..<length rows]"
  proof (rule nth_equalityI)
    show "length (connectRow ?B k) = length (map (connectedUpTo rows (Suc k)) [0..<length rows])"
      by simp
  next
    fix j assume "j < length (connectRow ?B k)"
    then have j: "j < length rows" by simp
    show "connectRow ?B k ! j = map (connectedUpTo rows (Suc k)) [0..<length rows] ! j"
      using j k by (simp add: nth_connectRow connectedUpTo_Suc)
  qed
  finally show ?case .
qed

lemma untouched_isManualRow [simp]: "untouched isManualRow" "untouched bestValue"
  by (simp_all add: untouched_def)

lemma nth_foldl_connectRow:
  "untouched f \<Longrightarrow> j < length rows \<Longrightarrow> f (foldl connectRow rows ns ! j) = f (rows ! j)"
  by (metis length_foldl_connectRow map_foldl_connectRow nth_map)

lemma foldl_connectRow_Suc:
  "foldl connectRow rows [0..<Suc k] = connectRow (foldl connectRow rows [0..<k]) k"
  by simp

lemma linkRow_claimed: "manualConnector r \<noteq> None \<Longrightarrow> linkRow r b = r"
  by (simp add: linkRow_def)

text \<open>Once its own step has run, the row of a manual correction stays as that step left it.\<close>

lemma own_row_after:
  assumes "i < length rows" and "isManualRow (rows ! i)" and "i < k" and "k \<le> length rows"
  shows "manualConnector (foldl connectRow rows [0..<k] ! i) = actualReal (rows ! i)
       \<and> filledLineValue (foldl connectRow rows [0..<k] ! i) = None"
  using assms(3,4)
proof (induction k)
  case 0
  then show ?case by simp
next
  case (Suc k)
  let ?B = "foldl connectRow rows [0..<k]"
  have m: "isManualRow (?B ! i)" "actualReal (?B ! i) = actualReal (rows ! i)"
    using assms(1,2) by (simp_all add: nth_foldl_connectRow)
  show ?case
  proof (cases "i = k")
    case True
    then show ?thesis
      using m assms(1) by (simp add: nth_connectRow)
  next
    case False
    then have ik: "i < k" "k < length rows" using Suc.prems by auto
    then have IH: "manualConnector (?B ! i) = actualReal (rows ! i)" "filledLineValue (?B ! i) = None"
      using Suc.IH by auto
    have "manualConnector (?B ! i) \<noteq> None"
      using IH(1) assms(2) by (simp add: isManualRow_def)
    then have "connectRow ?B k ! i = ?B ! i"
      using ik assms(1) by (simp add: nth_connectRow linkRow_claimed)
    then show ?thesis using IH by simp
  qed
qed

lemma clearsOnly_linkRow: "clearsOnly r (linkRow r b)"
  by (simp add: clearsOnly_def linkRow_def)

lemma clearsOnly_connectRow:
  "j < length rows \<Longrightarrow> k < length rows \<Longrightarrow> clearsOnly (rows ! j) (connectRow rows k ! j)"
  by (simp add: nth_connectRow clearsOnly_linkRow) (simp add: clearsOnly_def)

lemma clearsOnly_trans: "clearsOnly a b \<Longrightarrow> clearsOnly b c \<Longrightarrow> clearsOnly a c"
  by (auto simp: clearsOnly_def)

lemma clearsOnly_foldl:
  assumes "j < length rows" and "\<forall>k\<in>set ns. k < length rows"
  shows "clearsOnly (rows ! j) (foldl connectRow rows ns ! j)"
  using assms
proof (induction ns arbitrary: rows)
  case Nil
  then show ?case by (simp add: clearsOnly_def)
next
  case (Cons k ns)
  have "clearsOnly (connectRow rows k ! j) (foldl connectRow (connectRow rows k) ns ! j)"
    using Cons.prems by (intro Cons.IH) auto
  moreover have "clearsOnly (rows ! j) (connectRow rows k ! j)"
    using Cons.prems by (simp add: clearsOnly_connectRow)
  ultimately show ?case
    using clearsOnly_trans by auto
qed

lemma clearsOnly_manualConnectorPass:
  "j < length rows \<Longrightarrow> clearsOnly (rows ! j) (manualConnectorPass rows ! j)"
  unfolding manualConnectorPass_def by (rule clearsOnly_foldl) auto

lemma length_passUpTo [simp]: "length (passUpTo rows k) = length rows"
  by (simp add: passUpTo_def)

lemma manualConnectorPass_passUpTo: "manualConnectorPass rows = passUpTo rows (length rows)"
  by (simp add: passUpTo_def manualConnectorPass_def)

lemma foldl_keeps:
  "(\<And>p r. f (upd p r) = f r) \<Longrightarrow> f (foldl (\<lambda>r p. upd p r) r ps) = f r"
  by (induction ps arbitrary: r) auto

lemma filter_distinct_key:
  "distinct (map key ps) \<Longrightarrow> q \<in> set ps \<Longrightarrow> filter (\<lambda>p. key p = key q) ps = [q]"
proof (induction ps)
  case Nil
  then show ?case by simp
next
  case (Cons p ps)
  show ?case
  proof (cases "p = q")
    case True
    have "key q \<notin> key ` set ps"
      using Cons.prems True by simp
    then have "\<forall>x\<in>set ps. key x \<noteq> key q"
      by (metis imageI)
    then have "filter (\<lambda>p. key p = key q) ps = []"
      by (simp add: filter_empty_conv)
    with True show ?thesis by simp
  next
    case False
    then have "q \<in> set ps" "key p \<noteq> key q"
      using Cons.prems by auto
    then show ?thesis using Cons by simp
  qed
qed

subsection \<open>The fields of a merged row before the pass\<close>

lemma manualConnector_merge [simp]:
  "manualConnector (mergeHistory p r) = manualConnector r"
  "manualConnector (mergePending q r) = manualConnector r"
  "manualConnector (mergeForecast f r) = manualConnector r"
  by (simp_all add: mergeHistory_def mergePending_def mergeForecast_def Let_def)

lemma manualConnector_rowOf [simp]: "manualConnector (rowOf data d) = None"
  by (simp add: rowOf_def foldl_keeps newRow_def)

lemma hasHistory_merge [simp]:
  "hasHistory (mergeHistory p r) = True"
  "hasHistory (mergePending q r) = hasHistory r"
  "hasHistory (mergeForecast f r) = hasHistory r"
  by (simp_all add: mergeHistory_def mergePending_def mergeForecast_def Let_def)

lemma hasHistory_foldl: "hasHistory (foldl (\<lambda>r p. mergeHistory p r) r ps) = (hasHistory r \<or> ps \<noteq> [])"
  by (induction ps arbitrary: r) auto

lemma hasHistory_rowOf: "hasHistory (rowOf data d) = (d \<in> set (map ds (history data)))"
  by (auto simp: rowOf_def foldl_keeps hasHistory_foldl newRow_def filter_empty_conv)

lemma isPending_merge [simp]:
  "isPending (mergeHistory p r) = isPending r"
  "isPending (mergePending q r) = Some True"
  "isPending (mergeForecast f r) = isPending r"
  by (simp_all add: mergeHistory_def mergePending_def mergeForecast_def Let_def)

lemma isPending_foldl:
  "isPending (foldl (\<lambda>r p. mergePending p r) r ps) = (if ps = [] then isPending r else Some True)"
  by (induction ps arbitrary: r) auto

lemma isPending_rowOf:
  "isPending (rowOf data d) = (if d \<in> set (map ds (pending_weeks data)) then Some True else None)"
  by (auto simp: rowOf_def foldl_keeps isPending_foldl newRow_def filter_empty_conv)

lemma hasForecast_merge [simp]:
  "hasForecast (mergeHistory p r) = hasForecast r"
  "hasForecast (mergePending q r) = hasForecast r"
  "hasForecast (mergeForecast f r) = True"
  by (simp_all add: mergeHistory_def mergePending_def mergeForecast_def Let_def)

lemma hasForecast_foldl: "hasForecast (foldl (\<lambda>r p. mergeForecast p r) r ps) = (hasForecast r \<or> ps \<noteq> [])"
  by (induction ps arbitrary: r) auto

lemma hasForecast_rowOf: "hasForecast (rowOf data d) = (d \<in> set (map ds (forecast data)))"
  by (auto simp: rowOf_def foldl_keeps hasForecast_foldl newRow_def filter_empty_conv)

lemma isTimelineRow_rowOf:
  "isTimelineRow (rowOf data d) = (d \<in> set (map ds (history data)) \<or> d \<in> set (map ds (pending_weeks data)))"
  by (simp add: isTimelineRow_def hasHistory_rowOf isPending_rowOf)

lemma date_foldl_merge [simp]: "date (rowOf data d) = d"
  by (simp add: rowOf_def foldl_keeps newRow_def)

lemma fill_mergeForecast [simp]:
  "filledValue (mergeForecast f r) = filledValue r"
  "filledLineValue (mergeForecast f r) = filledLineValue r"
  "filledSource (mergeForecast f r) = filledSource r"
  by (simp_all add: mergeForecast_def Let_def)

lemma fill_mergePending [simp]:
  "filledValue (mergePending q r) = Some (prediction q)"
  "filledLineValue (mergePending q r) = Some (prediction q)"
  "filledSource (mergePending q r) = Some pending"
  by (simp_all add: mergePending_def)

lemma actual_mergePending [simp]:
  "actualReal (mergePending q r) = actualReal r"
  "actualSource (mergePending q r) = actualSource r"
  by (simp_all add: mergePending_def)

lemma actual_mergeForecast:
  "actualReal (mergeForecast f r) =
     (if actualReal r = None \<and> isFiniteNumber (actual f) then actual f else actualReal r)"
  "actualSource (mergeForecast f r) =
     (if actualReal r = None \<and> isFiniteNumber (actual f) then Some observed else actualSource r)"
  by (simp_all add: mergeForecast_def Let_def)

lemma isFiniteNumber_Some: "isFiniteNumber v \<Longrightarrow> v \<noteq> None"
  by (cases v) (auto simp: isFiniteNumber_def)

lemma actual_set_foldl_mergeForecast:
  "actualReal r \<noteq> None \<Longrightarrow>
   actualReal (foldl (\<lambda>r p. mergeForecast p r) r fs) = actualReal r
   \<and> actualSource (foldl (\<lambda>r p. mergeForecast p r) r fs) = actualSource r"
  by (induction fs arbitrary: r) (auto simp: actual_mergeForecast)

lemma actual_unset_foldl_mergeForecast:
  "actualReal r = None \<Longrightarrow>
   actualReal (foldl (\<lambda>r p. mergeForecast p r) r fs) =
     (case find (\<lambda>f. isFiniteNumber (actual f)) fs of None \<Rightarrow> None | Some f \<Rightarrow> actual f)
   \<and> actualSource (foldl (\<lambda>r p. mergeForecast p r) r fs) =
     (case find (\<lambda>f. isFiniteNumber (actual f)) fs of None \<Rightarrow> actualSource r | Some f \<Rightarrow> Some observed)"
proof (induction fs arbitrary: r)
  case Nil
  then show ?case by simp
next
  case (Cons f fs)
  show ?case
  proof (cases "isFiniteNumber (actual f)")
    case True
    then have "actualReal (mergeForecast f r) \<noteq> None"
      using Cons.prems by (simp add: actual_mergeForecast isFiniteNumber_Some)
    from actual_set_foldl_mergeForecast [OF this, of fs] True Cons.prems
    show ?thesis by (simp add: actual_mergeForecast)
  next
    case False
    then have "actualReal (mergeForecast f r) = None" "actualSource (mergeForecast f r) = actualSource r"
      using Cons.prems by (simp_all add: actual_mergeForecast)
    with Cons.IH [of "mergeForecast f r"] False show ?thesis by (simp split: option.splits)
  qed
qed

lemma find_filter: "find P (filter Q xs) = find (\<lambda>x. Q x \<and> P x) xs"
  by (induction xs) auto

lemma actual_fill_history:
  assumes "\<forall>p\<in>set ps. source p \<noteq> observed \<and> source p \<noteq> manual"
  shows "actualReal (foldl (\<lambda>r p. mergeHistory p r) r ps) = actualReal r
       \<and> actualSource (foldl (\<lambda>r p. mergeHistory p r) r ps) = actualSource r"
  using assms by (induction ps arbitrary: r) (auto simp: mergeHistory_def Let_def)

lemma actual_rowOf_history:
  assumes "distinct (map ds (history data))" and "p \<in> set (history data)"
    and "source p = observed \<or> source p = manual"
  shows "actualReal (rowOf data (ds p)) = Some (y p) \<and> actualSource (rowOf data (ds p)) = Some (source p)"
proof -
  have f: "filter (\<lambda>q. ds q = ds p) (history data) = [p]"
    using assms(1,2) by (rule filter_distinct_key)
  let ?h = "mergeHistory p (newRow (ds p))"
  have h: "actualReal ?h = Some (y p)" "actualSource ?h = Some (source p)"
    using assms(3) by (auto simp: mergeHistory_def Let_def)
  let ?p = "foldl (\<lambda>r p. mergePending p r) ?h (filter (\<lambda>q. ds q = ds p) (pending_weeks data))"
  have p: "actualReal ?p = Some (y p)" "actualSource ?p = Some (source p)"
    using h by (simp_all add: foldl_keeps)
  then have "actualReal ?p \<noteq> None" by simp
  from actual_set_foldl_mergeForecast [OF this] p
  show ?thesis by (simp add: rowOf_def f)
qed

lemma actual_rowOf_no_history:
  assumes "\<forall>p\<in>set (history data). ds p = d \<longrightarrow> source p \<noteq> observed \<and> source p \<noteq> manual"
  shows "actualReal (rowOf data d) =
      (case find (\<lambda>f. ds f = d \<and> isFiniteNumber (actual f)) (forecast data) of
         None \<Rightarrow> None | Some f \<Rightarrow> actual f)
    \<and> actualSource (rowOf data d) =
      (case find (\<lambda>f. ds f = d \<and> isFiniteNumber (actual f)) (forecast data) of
         None \<Rightarrow> None | Some f \<Rightarrow> Some observed)"
proof -
  let ?h = "foldl (\<lambda>r p. mergeHistory p r) (newRow d) (filter (\<lambda>p. ds p = d) (history data))"
  have h: "actualReal ?h = None \<and> actualSource ?h = None"
    using actual_fill_history [of "filter (\<lambda>p. ds p = d) (history data)" "newRow d"] assms
    by (simp add: newRow_def)
  let ?p = "foldl (\<lambda>r p. mergePending p r) ?h (filter (\<lambda>q. ds q = d) (pending_weeks data))"
  have p: "actualReal ?p = None" "actualSource ?p = None"
    using h by (simp_all add: foldl_keeps)
  from actual_unset_foldl_mergeForecast [OF p(1)] p(2)
  show ?thesis by (simp add: rowOf_def find_filter split: option.splits)
qed

lemma fill_rowOf_pending:
  assumes "distinct (map ds (pending_weeks data))" and "q \<in> set (pending_weeks data)"
  shows "filledValue (rowOf data (ds q)) = Some (prediction q)
    \<and> filledLineValue (rowOf data (ds q)) = Some (prediction q)
    \<and> filledSource (rowOf data (ds q)) = Some pending
    \<and> isPending (rowOf data (ds q)) = Some True"
proof -
  have f: "filter (\<lambda>p. ds p = ds q) (pending_weeks data) = [q]"
    using assms by (rule filter_distinct_key)
  show ?thesis by (simp add: rowOf_def f foldl_keeps)
qed

subsection \<open>The rows of the merged timeline\<close>

lemma untouched_connectedUpTo:
  "untouched f \<Longrightarrow> f (connectedUpTo rows k j) = f (rows ! j)"
proof -
  assume u: "untouched f"
  have "connectedUpTo rows k j =
      ((rows ! j)\<lparr>manualConnector := manualConnector (connectedUpTo rows k j)\<rparr>)
        \<lparr>filledLineValue := filledLineValue (connectedUpTo rows k j)\<rparr>"
    by (simp add: connectedUpTo_def Let_def)
  then show ?thesis
    using u unfolding untouched_def by metis
qed

lemma nth_rowsMap_get:
  "distinct (map date rows) \<Longrightarrow> j < length rows \<Longrightarrow> rowsMap_get rows (date (rows ! j)) = Some (rows ! j)"
  by (simp add: rowsMap_get_Some)

lemma manualConnectorPass_closed:
  assumes "\<forall>r\<in>set rows. manualConnector r = None"
  shows "manualConnectorPass rows = map (connectedUpTo rows (length rows)) [0..<length rows]"
  unfolding manualConnectorPass_def using assms by (rule pass_prefix) simp

lemma sorted_rows_rowOf:
  assumes "j < length (buildRows data)"
  shows "sortRows getTime (buildRows data) ! j = rowOf data (date (sortRows getTime (buildRows data) ! j))"
    and "date (sortRows getTime (buildRows data) ! j) \<in> set (datesOf data)"
proof -
  have "sortRows getTime (buildRows data) ! j \<in> set (buildRows data)"
    using assms by (metis length_sortRows nth_mem set_sortRows)
  then show "sortRows getTime (buildRows data) ! j = rowOf data (date (sortRows getTime (buildRows data) ! j))"
    and "date (sortRows getTime (buildRows data) ! j) \<in> set (datesOf data)"
    by (simp_all add: rowOf_in_buildRows)
qed

lemma length_allRows [simp]: "length (allRows getTime data) = length (buildRows data)"
  by (simp add: allRows_def)

lemma nth_allRows:
  assumes "j < length (buildRows data)"
  shows "allRows getTime data ! j =
    connectedUpTo (sortRows getTime (buildRows data)) (length (buildRows data)) j"
proof -
  have "\<forall>r\<in>set (sortRows getTime (buildRows data)). manualConnector r = None"
    by (auto simp: rowOf_in_buildRows) (metis manualConnector_rowOf)
  from manualConnectorPass_closed [OF this] assms show ?thesis
    by (simp add: allRows_def)
qed

lemma distinct_date_allRows: "distinct (map date (allRows getTime data))"
  by (simp add: allRows_def map_manualConnectorPass distinct_date_sortRows distinct_date_buildRows)

lemma untouched_nth_allRows:
  assumes "untouched f" and "j < length (buildRows data)"
  shows "f (allRows getTime data ! j) = f (rowOf data (date (allRows getTime data ! j)))"
proof -
  have "f (allRows getTime data ! j) = f (sortRows getTime (buildRows data) ! j)"
    using assms by (simp add: nth_allRows untouched_connectedUpTo)
  moreover have "date (allRows getTime data ! j) = date (sortRows getTime (buildRows data) ! j)"
    using assms(2) by (simp add: nth_allRows untouched_connectedUpTo)
  ultimately show ?thesis
    using sorted_rows_rowOf(1) [OF assms(2), of getTime] by simp
qed

lemma allRows_index:
  assumes "d \<in> set (datesOf data)"
  shows "\<exists>j<length (buildRows data). date (allRows getTime data ! j) = d
           \<and> rowsMap_get (allRows getTime data) d = Some (allRows getTime data ! j)"
proof -
  have "d \<in> set (map date (allRows getTime data))"
    using assms set_date_buildRows [of data] by (simp add: allRows_def map_manualConnectorPass)
  then obtain j where j: "j < length (allRows getTime data)" "date (allRows getTime data ! j) = d"
    by (metis in_set_conv_nth length_map nth_map)
  then have "rowsMap_get (allRows getTime data) d = Some (allRows getTime data ! j)"
    using nth_rowsMap_get [OF distinct_date_allRows, of j getTime data] by simp
  with j show ?thesis by auto
qed

lemma isManualRow_sorted_allRows:
  "m < length (buildRows data) \<Longrightarrow>
   isManualRow (sortRows getTime (buildRows data) ! m) = isManualRow (allRows getTime data ! m)"
  by (simp add: nth_allRows)

lemma fill_line_allRows:
  assumes "j < length (buildRows data)" and "filledValue (allRows getTime data ! j) \<noteq> None"
  shows "filledLineValue (allRows getTime data ! j) =
    (if isManualRow (allRows getTime data ! j) \<or> (0 < j \<and> isManualRow (allRows getTime data ! (j - 1)))
     then None else filledLineValue (rowOf data (date (allRows getTime data ! j))))"
proof -
  let ?S = "sortRows getTime (buildRows data)"
  have b: "bestValue (?S ! j) \<noteq> None"
    using assms by (auto simp: nth_allRows untouched_connectedUpTo bestValue_def nullish_def split: option.splits)
  have l: "filledLineValue (rowOf data (date (allRows getTime data ! j))) = filledLineValue (?S ! j)"
    using sorted_rows_rowOf(1) [OF assms(1), of getTime] assms(1)
    by (simp add: nth_allRows untouched_connectedUpTo)
  have m: "manualAt ?S (length (buildRows data)) j = isManualRow (allRows getTime data ! j)"
    using assms(1) by (simp add: manualAt_def nth_allRows)
  have p: "(0 < j \<and> manualAt ?S (length (buildRows data)) (j - 1))
      = (0 < j \<and> isManualRow (allRows getTime data ! (j - 1)))"
    using assms(1) by (auto simp: manualAt_def nth_allRows)
  have "filledLineValue (allRows getTime data ! j) =
      (if manualAt ?S (length (buildRows data)) j
          \<or> ((0 < j \<and> manualAt ?S (length (buildRows data)) (j - 1)) \<and> bestValue (?S ! j) \<noteq> None)
       then None else filledLineValue (?S ! j))"
    using assms(1) by (simp add: nth_allRows connectedUpTo_def Let_def)
  then show ?thesis
    unfolding m p l using b by simp
qed

lemma foldl_preserves:
  assumes "P r" and "\<And>p r. P r \<Longrightarrow> P (upd p r)"
  shows "P (foldl (\<lambda>r p. upd p r) r ps)"
  using assms(1) by (induction ps arbitrary: r) (simp_all add: assms(2))

lemma fillLineConsistent_merge:
  "fillLineConsistent r \<Longrightarrow> fillLineConsistent (mergeHistory p r)"
  "fillLineConsistent (mergePending q r)"
  "fillLineConsistent r \<Longrightarrow> fillLineConsistent (mergeForecast f r)"
  by (auto simp: fillLineConsistent_def mergeHistory_def Let_def)

lemma fillLineConsistent_rowOf: "fillLineConsistent (rowOf data d)"
proof -
  let ?h = "foldl (\<lambda>r p. mergeHistory p r) (newRow d) (filter (\<lambda>p. ds p = d) (history data))"
  let ?p = "foldl (\<lambda>r p. mergePending p r) ?h (filter (\<lambda>p. ds p = d) (pending_weeks data))"
  have "fillLineConsistent (newRow d)"
    by (simp add: fillLineConsistent_def newRow_def)
  then have "fillLineConsistent ?h"
    by (rule foldl_preserves) (rule fillLineConsistent_merge(1))
  then have "fillLineConsistent ?p"
    by (rule foldl_preserves) (rule fillLineConsistent_merge(2))
  then show ?thesis
    unfolding rowOf_def by (rule foldl_preserves) (rule fillLineConsistent_merge(3))
qed

lemma fillLineConsistent_allRows:
  assumes "r \<in> set (allRows getTime data)"
  shows "fillLineConsistent r"
proof -
  obtain j where j: "j < length (buildRows data)" "r = allRows getTime data ! j"
    using assms by (metis in_set_conv_nth length_allRows)
  let ?S = "sortRows getTime (buildRows data)"
  have "fillLineConsistent (?S ! j)"
    using sorted_rows_rowOf(1) [OF j(1), of getTime] fillLineConsistent_rowOf by metis
  moreover have "clearsOnly (?S ! j) (manualConnectorPass ?S ! j)"
    using j(1) by (simp add: clearsOnly_manualConnectorPass)
  ultimately show ?thesis
    using j(2) by (auto simp: allRows_def fillLineConsistent_def clearsOnly_def)
qed

subsection \<open>The compact window\<close>

lemma foldl_tailStep:
  "snd (foldl (tailStep getTime e fw) (c, acc) rows) =
     acc @ take (nat (fw - c)) (filter (\<lambda>row. time_less e (rowTime getTime row) \<and> forecastValue row \<noteq> None) rows)"
proof (induction rows arbitrary: c acc)
  case Nil
  show ?case by simp
next
  case (Cons r rows)
  let ?P = "\<lambda>row. time_less e (rowTime getTime row) \<and> forecastValue row \<noteq> None"
  show ?case
  proof (cases "?P r")
    case False
    then have s: "tailStep getTime e fw (c, acc) r = (c, acc)"
      by (auto simp: tailStep_def)
    have f: "filter ?P (r # rows) = filter ?P rows"
      using False by simp
    show ?thesis
      unfolding f by (simp only: foldl_Cons s Cons.IH)
  next
    case True
    then have f: "filter ?P (r # rows) = r # filter ?P rows"
      by simp
    show ?thesis
    proof (cases "c < fw")
      case True
      have s: "tailStep getTime e fw (c, acc) r = (c + 1, acc @ [r])"
        using \<open>?P r\<close> True by (simp add: tailStep_def)
      have n: "nat (fw - c) = Suc (nat (fw - (c + 1)))"
        using True by simp
      show ?thesis
        unfolding f n by (simp only: foldl_Cons s Cons.IH take_Suc_Cons append_assoc append_Cons append_Nil)
    next
      case False
      then have s: "tailStep getTime e fw (c, acc) r = (c, acc)"
        by (simp add: tailStep_def)
      have n: "nat (fw - c) = 0" using False by simp
      show ?thesis
        unfolding f by (simp only: foldl_Cons s Cons.IH n take_0)
    qed
  qed
qed

lemma selectWindow_no_timeline:
  "timelineRows rows = [] \<Longrightarrow> selectWindow getTime rows hw fw = Inr rows"
  by (simp add: selectWindow_def timelineRows_def)

lemma selectWindow_TypeError:
  "timelineRows rows \<noteq> [] \<Longrightarrow> hw \<le> 0 \<Longrightarrow> selectWindow getTime rows hw fw = Inl TypeError"
proof -
  assume t: "timelineRows rows \<noteq> []" and h: "hw \<le> 0"
  have "0 < length (filter isTimelineRow rows)"
    using t by (simp add: timelineRows_def)
  then have l: "hw < int (length (filter isTimelineRow rows))"
    using h by linarith
  have "dateAt (filter isTimelineRow rows) (int (length (filter isTimelineRow rows)) - hw) = Inl TypeError"
    using h by (simp add: dateAt_def)
  then show ?thesis
    using t l by (simp add: selectWindow_def timelineRows_def Let_def)
qed

lemma windowStart_dateAt:
  assumes "timelineRows rows \<noteq> []" and "0 < hw"
  shows "(if int (length (timelineRows rows)) > hw
          then dateAt (timelineRows rows) (int (length (timelineRows rows)) - hw)
          else dateAt (timelineRows rows) 0)
       = Inr (date (timelineRows rows ! (length (timelineRows rows) - nat hw)))"
proof (cases "int (length (timelineRows rows)) > hw")
  case True
  then have "nat (int (length (timelineRows rows)) - hw) = length (timelineRows rows) - nat hw"
    using assms(2) by linarith
  then show ?thesis
    using True assms(2) by (simp add: dateAt_def del: nat_diff_distrib)
next
  case False
  then have "length (timelineRows rows) - nat hw = 0" by linarith
  then show ?thesis
    using False assms(1) by (simp add: dateAt_def)
qed

lemma selectWindow_window:
  assumes "timelineRows rows \<noteq> []" and "0 < hw"
  shows "selectWindow getTime rows hw fw =
    Inr (if compactBase getTime rows hw @ forecastTail getTime rows fw \<noteq> []
         then compactBase getTime rows hw @ forecastTail getTime rows fw else rows)"
proof -
  let ?T = "filter isTimelineRow rows"
  have t: "?T \<noteq> []"
    using assms(1) by (simp add: timelineRows_def)
  have d: "(if int (length ?T) > hw then dateAt ?T (int (length ?T) - hw) else dateAt ?T 0)
       = Inr (date (?T ! (length ?T - nat hw)))"
    using windowStart_dateAt [OF assms] by (simp only: timelineRows_def)
  have "selectWindow getTime rows hw fw =
      (case Inr (date (?T ! (length ?T - nat hw))) of
          Inl e \<Rightarrow> Inl e
        | Inr windowStartTimeline \<Rightarrow>
            let windowStartTime = getTime windowStartTimeline;
                windowEndTime = getTime (date (last ?T));
                compactBase = filter (\<lambda>row. time_le windowStartTime (rowTime getTime row)
                                         \<and> time_le (rowTime getTime row) windowEndTime) rows;
                forecastTail = snd (foldl (tailStep getTime windowEndTime fw) (0, []) rows);
                compact = compactBase @ forecastTail
            in Inr (if compact \<noteq> [] then compact else rows))"
    unfolding selectWindow_def by (simp only: Let_def t if_False d)
  also have "\<dots> = Inr (if compactBase getTime rows hw @ forecastTail getTime rows fw \<noteq> []
         then compactBase getTime rows hw @ forecastTail getTime rows fw else rows)"
    by (simp only: sum.case Let_def foldl_tailStep append_Nil diff_0_right compactBase_def forecastTail_def
        windowStartTime_def windowEndTime_def timelineRows_def)
  finally show ?thesis .
qed

subsection \<open>The window of an ascending timeline\<close>

lemma last_nth: "i < length xs \<Longrightarrow> last xs = xs ! (length xs - 1)"
  by (rule last_conv_nth) auto

lemma filter_window_drop:
  assumes "sorted_wrt (\<lambda>a b. key a < (key b :: int)) xs" and "i < length xs"
  shows "filter (\<lambda>x. key (xs ! i) \<le> key x \<and> key x \<le> key (last xs)) xs = drop i xs"
proof -
  have lt: "key (xs ! a) < key (xs ! b)" if "a < b" "b < length xs" for a b
    using assms(1) that by (simp add: sorted_wrt_iff_nth_less)
  have le: "key (xs ! a) \<le> key (xs ! b)" if "a \<le> b" "b < length xs" for a b
    using lt [of a b] that by (cases "a = b") auto
  have l: "last xs = xs ! (length xs - 1)"
    using assms(2) by (rule last_nth)
  have front: "filter (\<lambda>x. key (xs ! i) \<le> key x \<and> key x \<le> key (last xs)) (take i xs) = []"
  proof -
    have "\<not> key (xs ! i) \<le> key x" if x: "x \<in> set (take i xs)" for x
    proof -
      obtain a where "a < i" "x = xs ! a"
        using x assms(2) by (auto simp: in_set_conv_nth)
      then show ?thesis using lt [of a i] assms(2) by simp
    qed
    then show ?thesis by (simp add: filter_empty_conv)
  qed
  have rear: "filter (\<lambda>x. key (xs ! i) \<le> key x \<and> key x \<le> key (last xs)) (drop i xs) = drop i xs"
  proof -
    have "key (xs ! i) \<le> key x \<and> key x \<le> key (last xs)" if x: "x \<in> set (drop i xs)" for x
    proof -
      obtain a where a: "a < length xs - i" "x = xs ! (i + a)"
        using x by (auto simp: in_set_conv_nth)
      then have "i + a < length xs" by simp
      then show ?thesis
        using le [of i "i + a"] le [of "i + a" "length xs - 1"] a l by simp
    qed
    then show ?thesis by (simp add: filter_id_conv)
  qed
  have "filter (\<lambda>x. key (xs ! i) \<le> key x \<and> key x \<le> key (last xs)) (take i xs @ drop i xs) = drop i xs"
    unfolding filter_append front rear by simp
  then show ?thesis by simp
qed

lemma time_le_valid:
  "rowTime getTime a \<noteq> None \<Longrightarrow> rowTime getTime b \<noteq> None \<Longrightarrow>
   time_le (rowTime getTime a) (rowTime getTime b) = (timeValue getTime a \<le> timeValue getTime b)"
  by (auto simp: timeValue_def)

lemma time_less_valid:
  "rowTime getTime a \<noteq> None \<Longrightarrow> rowTime getTime b \<noteq> None \<Longrightarrow>
   time_less (rowTime getTime a) (rowTime getTime b) = (timeValue getTime a < timeValue getTime b)"
  by (auto simp: timeValue_def)

lemma ascending_filter: "ascending getTime rows \<Longrightarrow> ascending getTime (filter P rows)"
  by (auto simp: ascending_def list_all_iff sorted_wrt_filter)

lemma ascending_valid: "ascending getTime rows \<Longrightarrow> r \<in> set rows \<Longrightarrow> rowTime getTime r \<noteq> None"
  by (auto simp: ascending_def list_all_iff)

lemma ascending_last_max:
  assumes "ascending getTime rows" and "r \<in> set rows"
  shows "timeValue getTime r \<le> timeValue getTime (last rows)"
proof -
  obtain a where a: "a < length rows" "r = rows ! a"
    using assms(2) by (auto simp: in_set_conv_nth)
  have l: "last rows = rows ! (length rows - 1)"
    using a(1) by (rule last_nth)
  show ?thesis
  proof (cases "a = length rows - 1")
    case True
    then show ?thesis using a l by simp
  next
    case False
    then have "a < length rows - 1" using a(1) by simp
    then have "timeValue getTime (rows ! a) < timeValue getTime (rows ! (length rows - 1))"
      using assms(1) a(1) by (simp add: ascending_def sorted_wrt_iff_nth_less)
    then show ?thesis using a l by simp
  qed
qed

lemma ascending_max_is_last:
  assumes "ascending getTime rows" and "r \<in> set rows"
    and "\<forall>x\<in>set rows. timeValue getTime x \<le> timeValue getTime r"
  shows "last rows = r"
proof -
  obtain a where a: "a < length rows" "r = rows ! a"
    using assms(2) by (auto simp: in_set_conv_nth)
  have l: "last rows = rows ! (length rows - 1)"
    using a(1) by (rule last_nth)
  have "a = length rows - 1"
  proof (rule ccontr)
    assume "a \<noteq> length rows - 1"
    then have "a < length rows - 1" using a(1) by simp
    then have "timeValue getTime (rows ! a) < timeValue getTime (rows ! (length rows - 1))"
      using assms(1) a(1) by (simp add: ascending_def sorted_wrt_iff_nth_less)
    moreover have "rows ! (length rows - 1) \<in> set rows"
      using a(1) by simp
    ultimately show False
      using assms(3) a(2) by fastforce
  qed
  then show ?thesis using a l by simp
qed

lemma timeline_index:
  assumes "timelineRows rows \<noteq> []" and "0 < hw"
  shows "length (timelineRows rows) - nat hw < length (timelineRows rows)"
  using assms by (cases "timelineRows rows") auto

lemma compactBase_timeline:
  assumes "ascending getTime rows" and "timelineRows rows \<noteq> []" and "0 < hw"
  shows "filter isTimelineRow (compactBase getTime rows hw)
       = drop (length (timelineRows rows) - nat hw) (timelineRows rows)"
proof -
  let ?T = "timelineRows rows"
  let ?i = "length ?T - nat hw"
  let ?key = "timeValue getTime"
  have aT: "ascending getTime ?T"
    using assms(1) unfolding timelineRows_def by (rule ascending_filter)
  have i: "?i < length ?T" using assms(2,3) by (rule timeline_index)
  have v: "rowTime getTime r \<noteq> None" if "r \<in> set ?T" for r
    using aT that by (rule ascending_valid)
  have vi: "rowTime getTime (?T ! ?i) \<noteq> None" using v i by simp
  have vl: "rowTime getTime (last ?T) \<noteq> None" using v assms(2) by simp
  have "filter isTimelineRow (compactBase getTime rows hw)
      = filter (\<lambda>row. time_le (windowStartTime getTime rows hw) (rowTime getTime row)
                  \<and> time_le (rowTime getTime row) (windowEndTime getTime rows)) ?T"
    by (simp add: compactBase_def timelineRows_def conj_commute)
  also have "\<dots> = filter (\<lambda>x. ?key (?T ! ?i) \<le> ?key x \<and> ?key x \<le> ?key (last ?T)) ?T"
  proof (rule filter_cong [OF refl])
    fix r assume "r \<in> set ?T"
    then have "rowTime getTime r \<noteq> None" by (rule v)
    then show "(time_le (windowStartTime getTime rows hw) (rowTime getTime r)
                  \<and> time_le (rowTime getTime r) (windowEndTime getTime rows))
        = (?key (?T ! ?i) \<le> ?key r \<and> ?key r \<le> ?key (last ?T))"
      using time_le_valid [OF vi, of r] time_le_valid [OF _ vl, of r]
      by (simp add: windowStartTime_def windowEndTime_def rowTime_def)
  qed
  also have "\<dots> = drop ?i ?T"
    using aT i by (intro filter_window_drop) (simp_all add: ascending_def)
  finally show ?thesis .
qed

lemma last_timeline_in_compactBase:
  assumes "ascending getTime rows" and "timelineRows rows \<noteq> []" and "0 < hw"
  shows "last (timelineRows rows) \<in> set (compactBase getTime rows hw)"
proof -
  have "last (timelineRows rows) \<in> set (drop (length (timelineRows rows) - nat hw) (timelineRows rows))"
    using timeline_index [OF assms(2,3)] assms(2) by (metis drop_eq_Nil last_drop last_in_set not_le)
  then have "last (timelineRows rows) \<in> set (filter isTimelineRow (compactBase getTime rows hw))"
    using compactBase_timeline [OF assms] by simp
  then show ?thesis by simp
qed

lemma compactBase_bounds:
  assumes "ascending getTime rows" and "timelineRows rows \<noteq> []" and "0 < hw"
    and "r \<in> set rows"
  shows "r \<in> set (compactBase getTime rows hw) \<longleftrightarrow>
     timeValue getTime (timelineRows rows ! (length (timelineRows rows) - nat hw)) \<le> timeValue getTime r
     \<and> timeValue getTime r \<le> timeValue getTime (last (timelineRows rows))"
proof -
  let ?T = "timelineRows rows"
  have sub: "set ?T \<subseteq> set rows" by (auto simp: timelineRows_def)
  have v: "rowTime getTime x \<noteq> None" if "x \<in> set rows" for x
    using assms(1) that by (rule ascending_valid)
  have vi: "rowTime getTime (?T ! (length ?T - nat hw)) \<noteq> None"
    using v sub timeline_index [OF assms(2,3)] by (meson nth_mem subsetD)
  have vl: "rowTime getTime (last ?T) \<noteq> None"
    using v sub assms(2) by (meson last_in_set subsetD)
  show ?thesis
    using assms(4) time_le_valid [OF vi v [OF assms(4)]] time_le_valid [OF v [OF assms(4)] vl]
    by (simp add: compactBase_def windowStartTime_def windowEndTime_def rowTime_def)
qed

lemma last_compactBase:
  assumes "ascending getTime rows" and "timelineRows rows \<noteq> []" and "0 < hw"
  shows "last (compactBase getTime rows hw) = last (timelineRows rows)"
proof (rule ascending_max_is_last)
  show "ascending getTime (compactBase getTime rows hw)"
    using assms(1) unfolding compactBase_def by (rule ascending_filter)
  show "last (timelineRows rows) \<in> set (compactBase getTime rows hw)"
    using assms by (rule last_timeline_in_compactBase)
  show "\<forall>x\<in>set (compactBase getTime rows hw).
      timeValue getTime x \<le> timeValue getTime (last (timelineRows rows))"
  proof
    fix x assume x: "x \<in> set (compactBase getTime rows hw)"
    then have "x \<in> set rows" by (simp add: compactBase_def)
    from compactBase_bounds [OF assms this] x show
      "timeValue getTime x \<le> timeValue getTime (last (timelineRows rows))" by simp
  qed
qed

lemma forecastTail_subset:
  "r \<in> set (forecastTail getTime rows fw) \<Longrightarrow>
   r \<in> set rows \<and> time_less (windowEndTime getTime rows) (rowTime getTime r) \<and> forecastValue r \<noteq> None"
  unfolding forecastTail_def by (auto dest: in_set_takeD)

lemma forecastTail_not_timeline:
  assumes "ascending getTime rows" and "timelineRows rows \<noteq> []"
    and "r \<in> set (forecastTail getTime rows fw)"
  shows "\<not> isTimelineRow r"
proof
  assume a: "isTimelineRow r"
  have r: "r \<in> set rows" "time_less (windowEndTime getTime rows) (rowTime getTime r)"
    using forecastTail_subset [OF assms(3)] by simp_all
  then have rT: "r \<in> set (timelineRows rows)"
    using a by (simp add: timelineRows_def)
  have aT: "ascending getTime (timelineRows rows)"
    using assms(1) unfolding timelineRows_def by (rule ascending_filter)
  have "timeValue getTime r \<le> timeValue getTime (last (timelineRows rows))"
    using aT rT by (rule ascending_last_max)
  moreover have "timeValue getTime (last (timelineRows rows)) < timeValue getTime r"
    using r(2) time_less_valid [of getTime "last (timelineRows rows)" r]
      ascending_valid [OF aT rT] ascending_valid [OF aT, of "last (timelineRows rows)"] assms(2)
    by (simp add: windowEndTime_def rowTime_def)
  ultimately show False by simp
qed

lemma ascending_window:
  assumes "ascending getTime rows" and "timelineRows rows \<noteq> []" and "0 < hw"
  shows "ascending getTime (compactBase getTime rows hw @ forecastTail getTime rows fw)"
proof -
  let ?F = "filter (\<lambda>row. time_less (windowEndTime getTime rows) (rowTime getTime row)
                     \<and> forecastValue row \<noteq> None) rows"
  have b: "ascending getTime (compactBase getTime rows hw)"
    using assms(1) unfolding compactBase_def by (rule ascending_filter)
  have "ascending getTime ?F"
    using assms(1) by (rule ascending_filter)
  then have f: "ascending getTime (forecastTail getTime rows fw)"
    unfolding forecastTail_def ascending_def
    by (auto simp: list_all_iff sorted_wrt_take dest: in_set_takeD)
  have sub: "set (timelineRows rows) \<subseteq> set rows" by (auto simp: timelineRows_def)
  have vl: "rowTime getTime (last (timelineRows rows)) \<noteq> None"
    using ascending_valid [OF assms(1)] sub assms(2) by (meson last_in_set subsetD)
  have cross: "timeValue getTime x < timeValue getTime z"
    if "x \<in> set (compactBase getTime rows hw)" "z \<in> set (forecastTail getTime rows fw)" for x z
  proof -
    have "x \<in> set rows" using that(1) by (simp add: compactBase_def)
    from compactBase_bounds [OF assms this] that(1)
    have "timeValue getTime x \<le> timeValue getTime (last (timelineRows rows))" by simp
    moreover have "timeValue getTime (last (timelineRows rows)) < timeValue getTime z"
      using forecastTail_subset [OF that(2)] time_less_valid [OF vl, of z]
        ascending_valid [OF assms(1), of z]
      by (simp add: windowEndTime_def rowTime_def)
    ultimately show ?thesis by simp
  qed
  show ?thesis
    using b f cross by (auto simp: ascending_def sorted_wrt_append)
qed

lemma ascending_allRows:
  assumes "\<forall>d\<in>set (datesOf data). getTime d \<noteq> None" and "inj_on getTime (set (datesOf data))"
  shows "ascending getTime (allRows getTime data)"
proof -
  let ?rows = "allRows getTime data"
  have "map date ?rows = map date (sortRows getTime (buildRows data))"
    by (simp add: allRows_def map_manualConnectorPass)
  then have "set (map date ?rows) = set (map date (buildRows data))"
    by simp
  then have dates: "date ` set ?rows = set (datesOf data)"
    using set_date_buildRows [of data] by simp
  have valid: "rowTime getTime r \<noteq> None" if "r \<in> set ?rows" for r
    using that dates assms(1) by (auto simp: rowTime_def)
  have b: "\<forall>r\<in>set (buildRows data). rowTime getTime r \<noteq> None"
    using assms(1) set_date_buildRows [of data] by (auto simp: rowTime_def)
  have "map (timeValue getTime) ?rows = map (timeValue getTime) (sortRows getTime (buildRows data))"
    by (simp add: allRows_def map_manualConnectorPass)
  then have sorted: "sorted (map (timeValue getTime) ?rows)"
    using sorted_sortRows [OF b] by simp
  have "inj_on (timeValue getTime) (set ?rows)"
  proof (rule inj_onI)
    fix a b assume a: "a \<in> set ?rows" and b: "b \<in> set ?rows"
      and e: "timeValue getTime a = timeValue getTime b"
    have "getTime (date a) = getTime (date b)"
      using valid [OF a] valid [OF b] e by (auto simp: timeValue_def rowTime_def)
    moreover have "date a \<in> set (datesOf data)" "date b \<in> set (datesOf data)"
      using a b dates by auto
    ultimately have "date a = date b"
      using assms(2) by (auto dest: inj_onD)
    then show "a = b"
      using a b distinct_date_allRows [of getTime data] by (metis distinct_map inj_onD)
  qed
  moreover have "distinct ?rows"
    using distinct_date_allRows [of getTime data] by (simp add: distinct_map)
  ultimately have "distinct (map (timeValue getTime) ?rows)"
    by (simp add: distinct_map)
  with sorted have "sorted_wrt (<) (map (timeValue getTime) ?rows)"
    by (simp add: strict_sorted_iff)
  then have "sorted_wrt (\<lambda>a b. timeValue getTime a < timeValue getTime b) ?rows"
    by (simp add: sorted_wrt_map)
  then show ?thesis
    using valid by (simp add: ascending_def list_all_iff)
qed

lemma thirty_weeks_ascending: "ascending isoDateTime (allRows isoDateTime thirty_weeks)"
  by code_simp

lemma thirty_weeks_timeline: "length (timelineRows (allRows isoDateTime thirty_weeks)) = 30"
  by code_simp

lemma thirty_weeks_window:
  "map_sum id (map date) (selectWindow isoDateTime (allRows isoDateTime thirty_weeks) 15 2)
     = Inr [''2024-04-15'', ''2024-04-22'', ''2024-04-29'', ''2024-05-06'', ''2024-05-13'', ''2024-05-20'', ''2024-05-27'', ''2024-06-03'', ''2024-06-10'', ''2024-06-17'', ''2024-06-24'', ''2024-07-01'', ''2024-07-08'', ''2024-07-15'', ''2024-07-22'', ''2024-07-29'', ''2024-08-05'']"
  by code_simp

subsection \<open>Finite channels\<close>

lemma foldl_preserves_on:
  assumes "P r" and "\<And>p r. p \<in> set ps \<Longrightarrow> P r \<Longrightarrow> P (upd p r)"
  shows "P (foldl (\<lambda>r p. upd p r) r ps)"
  using assms by (induction ps arbitrary: r) simp_all

lemma toNumeric_finite: "toNumeric toNumber v = Some n \<Longrightarrow> isFinite n"
  by (auto simp: toNumeric_def Let_def split: JsValue.splits if_splits)

lemma finiteOrNull_toNumeric: "finiteOrNull (toNumeric toNumber v)"
  by (cases "toNumeric toNumber v") (auto simp: finiteOrNull_def toNumeric_finite)

lemma isFinite_orElse_toNumeric: "isFinite (orElse (toNumeric toNumber v) (Finite 0))"
  by (cases "toNumeric toNumber v") (auto simp: orElse_def toNumeric_finite)

lemma finiteResponse_transformed: "finiteResponse (transformed toNumber apiData)"
  by (auto simp: finiteResponse_def transformed_def list_all_iff transformHistory_def
      transformForecast_def transformPending_def isFinite_orElse_toNumeric finiteOrNull_toNumeric
      split: option.splits)

lemma channelsFinite_mergeHistory:
  "isFinite (y p) \<Longrightarrow> channelsFinite r \<Longrightarrow> channelsFinite (mergeHistory p r)"
  by (auto simp: channelsFinite_def mergeHistory_def Let_def finiteOrNull_def)

lemma channelsFinite_mergePending:
  "isFinite (prediction p) \<Longrightarrow> channelsFinite r \<Longrightarrow> channelsFinite (mergePending p r)"
  by (auto simp: channelsFinite_def mergePending_def finiteOrNull_def)

lemma channelsFinite_mergeForecast:
  "isFinite (y_pred p) \<Longrightarrow> channelsFinite r \<Longrightarrow> channelsFinite (mergeForecast p r)"
  by (auto simp: channelsFinite_def mergeForecast_def Let_def finiteOrNull_def isFiniteNumber_def
      split: option.splits)

lemma channelsFinite_rowOf:
  assumes "finiteResponse data"
  shows "channelsFinite (rowOf data d)"
proof -
  let ?h = "foldl (\<lambda>r p. mergeHistory p r) (newRow d) (filter (\<lambda>p. ds p = d) (history data))"
  let ?p = "foldl (\<lambda>r p. mergePending p r) ?h (filter (\<lambda>p. ds p = d) (pending_weeks data))"
  have hy: "isFinite (y p)" if "p \<in> set (history data)" for p
    using assms that by (simp add: finiteResponse_def list_all_iff)
  have pe: "isFinite (prediction p)" if "p \<in> set (pending_weeks data)" for p
    using assms that by (simp add: finiteResponse_def list_all_iff)
  have fo: "isFinite (y_pred p)" if "p \<in> set (forecast data)" for p
    using assms that by (simp add: finiteResponse_def list_all_iff)
  have n: "channelsFinite (newRow d)"
    by (simp add: channelsFinite_def newRow_def finiteOrNull_def)
  have h: "channelsFinite ?h"
    using n by (rule foldl_preserves_on [where P = channelsFinite]) (simp add: channelsFinite_mergeHistory hy)
  have p: "channelsFinite ?p"
    using h by (rule foldl_preserves_on [where P = channelsFinite]) (simp add: channelsFinite_mergePending pe)
  show ?thesis
    unfolding rowOf_def
    using p by (rule foldl_preserves_on [where P = channelsFinite]) (simp add: channelsFinite_mergeForecast fo)
qed

lemma finiteOrNull_bestValue: "channelsFinite r \<Longrightarrow> finiteOrNull (bestValue r)"
  by (auto simp: channelsFinite_def bestValue_def nullish_def split: option.splits)

lemma channelsFinite_connectedUpTo:
  "channelsFinite (rows ! j) \<Longrightarrow> channelsFinite (connectedUpTo rows k j)"
  using finiteOrNull_bestValue [of "rows ! j"]
  by (auto simp: connectedUpTo_def Let_def channelsFinite_def finiteOrNull_def)

lemma channelsFinite_allRows:
  assumes "finiteResponse data" and "r \<in> set (allRows getTime data)"
  shows "channelsFinite r"
proof -
  obtain j where j: "j < length (buildRows data)" "r = allRows getTime data ! j"
    using assms(2) by (metis in_set_conv_nth length_allRows)
  have "channelsFinite (sortRows getTime (buildRows data) ! j)"
    using sorted_rows_rowOf(1) [OF j(1), of getTime] channelsFinite_rowOf [OF assms(1)] by metis
  then show ?thesis
    using j by (simp add: nth_allRows channelsFinite_connectedUpTo)
qed

subsection \<open>The order of the input\<close>

lemma filter_insertRow:
  assumes "rowTime getTime x \<noteq> None" and "\<forall>r\<in>set rs. rowTime getTime r \<noteq> None"
    and "sorted (map (timeValue getTime) rs)"
  shows "filter (\<lambda>r. timeValue getTime r = c) (insertRow (compareRows getTime) x rs) =
    (if timeValue getTime x = c then filter (\<lambda>r. timeValue getTime r = c) rs @ [x]
     else filter (\<lambda>r. timeValue getTime r = c) rs)"
  using assms
proof (induction rs)
  case Nil
  show ?case by simp
next
  case (Cons r rs)
  have cmp: "compareRows getTime x r = timeValue getTime x - timeValue getTime r"
    using Cons.prems by (simp add: compareRows_valid)
  show ?case
  proof (cases "timeValue getTime x < timeValue getTime r")
    case True
    have "\<forall>z\<in>set (r # rs). timeValue getTime x < timeValue getTime z"
      using True Cons.prems(3) by auto
    then have "timeValue getTime x = c \<Longrightarrow> filter (\<lambda>r. timeValue getTime r = c) (r # rs) = []"
      by (auto simp: filter_empty_conv)
    then show ?thesis
      using True cmp by auto
  next
    case False
    have IH: "filter (\<lambda>r. timeValue getTime r = c) (insertRow (compareRows getTime) x rs) =
        (if timeValue getTime x = c then filter (\<lambda>r. timeValue getTime r = c) rs @ [x]
         else filter (\<lambda>r. timeValue getTime r = c) rs)"
      using Cons.prems by (intro Cons.IH) auto
    show ?thesis
      using False cmp by (simp add: IH)
  qed
qed

lemma valid_insertRow:
  "rowTime getTime x \<noteq> None \<Longrightarrow> \<forall>r\<in>set rs. rowTime getTime r \<noteq> None \<Longrightarrow>
   \<forall>r\<in>set (insertRow cmp x rs). rowTime getTime r \<noteq> None"
  by simp

lemma filter_foldl_insertRow:
  assumes "\<forall>r\<in>set xs. rowTime getTime r \<noteq> None" and "\<forall>r\<in>set acc. rowTime getTime r \<noteq> None"
    and "sorted (map (timeValue getTime) acc)"
  shows "filter (\<lambda>r. timeValue getTime r = c)
           (foldl (\<lambda>acc x. insertRow (compareRows getTime) x acc) acc xs)
       = filter (\<lambda>r. timeValue getTime r = c) acc @ filter (\<lambda>r. timeValue getTime r = c) xs"
  using assms
proof (induction xs arbitrary: acc)
  case Nil
  show ?case by simp
next
  case (Cons x xs)
  let ?acc = "insertRow (compareRows getTime) x acc"
  have v: "\<forall>r\<in>set ?acc. rowTime getTime r \<noteq> None"
    using Cons.prems by simp
  have s: "sorted (map (timeValue getTime) ?acc)"
    using Cons.prems by (intro sorted_insertRow) auto
  have "filter (\<lambda>r. timeValue getTime r = c)
           (foldl (\<lambda>acc x. insertRow (compareRows getTime) x acc) ?acc xs)
       = filter (\<lambda>r. timeValue getTime r = c) ?acc @ filter (\<lambda>r. timeValue getTime r = c) xs"
    using Cons.prems(1) v s by (intro Cons.IH) auto
  moreover have "filter (\<lambda>r. timeValue getTime r = c) ?acc =
      (if timeValue getTime x = c then filter (\<lambda>r. timeValue getTime r = c) acc @ [x]
       else filter (\<lambda>r. timeValue getTime r = c) acc)"
    using Cons.prems by (intro filter_insertRow) auto
  ultimately show ?case by simp
qed

text \<open>The sort is stable: rows of one time keep their order.\<close>

lemma sortRows_stable:
  assumes "\<forall>r\<in>set rows. rowTime getTime r \<noteq> None"
  shows "filter (\<lambda>r. timeValue getTime r = c) (sortRows getTime rows)
       = filter (\<lambda>r. timeValue getTime r = c) rows"
  unfolding sortRows_def using filter_foldl_insertRow [OF assms, of "[]" c] by simp

lemma sortRows_sort_key:
  assumes "\<forall>r\<in>set rows. rowTime getTime r \<noteq> None"
  shows "sortRows getTime rows = sort_key (timeValue getTime) rows"
proof (rule properties_for_sort_key [symmetric])
  show "mset (sortRows getTime rows) = mset rows" by simp
  show "sorted (map (timeValue getTime) (sortRows getTime rows))"
    using assms by (rule sorted_sortRows)
  fix k assume "k \<in> set (sortRows getTime rows)"
  have "filter (\<lambda>r. timeValue getTime r = timeValue getTime k) (sortRows getTime rows)
      = filter (\<lambda>r. timeValue getTime r = timeValue getTime k) rows"
    using assms by (rule sortRows_stable)
  then show "filter (\<lambda>x. timeValue getTime k = timeValue getTime x) (sortRows getTime rows)
      = filter (\<lambda>x. timeValue getTime k = timeValue getTime x) rows"
    by (simp add: eq_commute)
qed

lemma sort_key_same_ties:
  fixes f :: "'a \<Rightarrow> int"
  assumes "mset xs = mset ys" and "\<And>c. filter (\<lambda>x. f x = c) xs = filter (\<lambda>x. f x = c) ys"
  shows "sort_key f xs = sort_key f ys"
proof (rule properties_for_sort_key)
  show "mset (sort_key f ys) = mset xs" using assms(1) by simp
  show "sorted (map f (sort_key f ys))" by simp
  fix k assume "k \<in> set (sort_key f ys)"
  have "filter (\<lambda>x. f x = f k) (sort_key f ys) = filter (\<lambda>x. f x = f k) ys"
    by (rule sort_key_stable)
  then have "filter (\<lambda>x. f k = f x) (sort_key f ys) = filter (\<lambda>x. f k = f x) ys"
    by (simp add: eq_commute)
  then show "filter (\<lambda>x. f k = f x) (sort_key f ys) = filter (\<lambda>x. f k = f x) xs"
    using assms(2) [of "f k"] by (simp add: eq_commute)
qed

lemma length_filter_distinct_key:
  "distinct (map key xs) \<Longrightarrow> length (filter (\<lambda>p. key p = d) xs) \<le> 1"
proof (induction xs)
  case Nil
  then show ?case by simp
next
  case (Cons x xs)
  show ?case
  proof (cases "key x = d")
    case True
    then have "\<forall>p\<in>set xs. key p \<noteq> d"
      using Cons.prems by (metis distinct.simps(2) imageI list.simps(9) list.set_map)
    then have "filter (\<lambda>p. key p = d) xs = []"
      by (simp add: filter_empty_conv)
    with True show ?thesis by simp
  next
    case False
    then show ?thesis using Cons by simp
  qed
qed

lemma short_lists_mset_eq:
  "mset xs = mset ys \<Longrightarrow> length xs \<le> 1 \<Longrightarrow> xs = ys"
proof (cases xs)
  case Nil
  assume "mset xs = mset ys"
  with Nil show ?thesis by simp
next
  case (Cons a as)
  assume m: "mset xs = mset ys" and l: "length xs \<le> 1"
  from Cons l have "xs = [a]" by simp
  with m show ?thesis by (metis mset_single_iff_right)
qed

lemma filter_key_permuted:
  assumes "mset xs' = mset xs" and "distinct (map key xs)"
  shows "filter (\<lambda>p. key p = d) xs' = filter (\<lambda>p. key p = d) xs"
proof -
  have "mset (map key xs') = mset (map key xs)"
    using assms(1) by simp
  then have "distinct (map key xs')"
    using assms(2) by (metis mset_eq_imp_distinct_iff)
  then have "length (filter (\<lambda>p. key p = d) xs') \<le> 1"
    by (rule length_filter_distinct_key)
  moreover have "mset (filter (\<lambda>p. key p = d) xs') = mset (filter (\<lambda>p. key p = d) xs)"
    using assms(1) by simp
  ultimately show ?thesis
    by (rule short_lists_mset_eq [rotated])
qed

lemma distinct_map_outer: "distinct (map (\<lambda>p. f (g p)) xs) \<Longrightarrow> distinct (map g xs)"
  by (induction xs) auto

lemma map_date_writeAll:
  assumes "\<And>p r. date (upd p r) = date r" and "distinct (map key ps)"
  shows "map date (writeAll key upd m ps)
       = map date m @ filter (\<lambda>d. d \<notin> set (map date m)) (map key ps)"
  using assms(2)
proof (induction ps arbitrary: m)
  case Nil
  show ?case by simp
next
  case (Cons p ps)
  let ?m = "updateRow (key p) (upd p) m"
  have fresh: "key p \<notin> set (map key ps)" and d: "distinct (map key ps)"
    using Cons.prems by simp_all
  have IH: "map date (writeAll key upd ?m ps)
       = map date ?m @ filter (\<lambda>d. d \<notin> set (map date ?m)) (map key ps)"
    using d by (rule Cons.IH)
  show ?case
  proof (cases "key p \<in> set (map date m)")
    case True
    then have "map date ?m = map date m"
      by (subst map_date_updateRow) (simp_all add: assms(1))
    with True IH show ?thesis by simp
  next
    case False
    then have u: "map date ?m = map date m @ [key p]"
      by (subst map_date_updateRow) (simp_all add: assms(1))
    have "\<forall>d\<in>set (map key ps). d \<noteq> key p"
      using fresh by blast
    then have "filter (\<lambda>d. d \<notin> set (map date ?m)) (map key ps)
        = filter (\<lambda>d. d \<notin> set (map date m)) (map key ps)"
      unfolding u by (intro filter_cong) auto
    with False IH u show ?thesis by simp
  qed
qed

lemma map_date_buildRows:
  assumes "distinct (map ds (history data))" and "distinct (map ds (pending_weeks data))"
    and "distinct (map ds (forecast data))"
  shows "map date (buildRows data) = insertionOrder data"
proof -
  let ?h = "writeAll ds mergeHistory [] (history data)"
  let ?p = "writeAll ds mergePending ?h (pending_weeks data)"
  have h: "map date ?h = map ds (history data)"
    using map_date_writeAll [of mergeHistory ds "history data" "[]"] assms(1) by simp
  have p: "map date ?p = map ds (history data)
      @ filter (\<lambda>d. d \<notin> set (map ds (history data))) (map ds (pending_weeks data))"
    using map_date_writeAll [of mergePending ds "pending_weeks data" ?h] assms(2) h by simp
  have "map date (writeAll ds mergeForecast ?p (forecast data))
      = map date ?p @ filter (\<lambda>d. d \<notin> set (map date ?p)) (map ds (forecast data))"
    using map_date_writeAll [of mergeForecast ds "forecast data" ?p] assms(3) by simp
  then show ?thesis
    unfolding buildRows_writeAll insertionOrder_def Let_def p by simp
qed

lemma buildRows_rowOf:
  "buildRows data = map (rowOf data) (map date (buildRows data))"
proof -
  have "map (\<lambda>r. rowOf data (date r)) (buildRows data) = buildRows data"
    by (rule map_idI) (simp add: rowOf_in_buildRows)
  then show ?thesis by (simp add: comp_def)
qed

lemma filter_time_permuted:
  assumes "mset xs' = mset xs" and "distinct (map (\<lambda>p. getTime (ds p)) xs)"
  shows "filter (\<lambda>d. getTime d = t) (map ds xs') = filter (\<lambda>d. getTime d = t) (map ds xs)"
  using filter_key_permuted [OF assms, of t] by (simp add: filter_map comp_def)

lemma filter_time_new_permuted:
  assumes "mset xs' = mset xs" and "distinct (map (\<lambda>p. getTime (ds p)) xs)"
  shows "filter (\<lambda>d. getTime d = t) (filter R (map ds xs'))
       = filter (\<lambda>d. getTime d = t) (filter R (map ds xs))"
proof -
  have "filter (\<lambda>d. getTime d = t) (filter R (map ds xs'))
      = filter R (filter (\<lambda>d. getTime d = t) (map ds xs'))"
    by (simp add: conj_commute)
  also have "\<dots> = filter R (filter (\<lambda>d. getTime d = t) (map ds xs))"
    by (simp only: filter_time_permuted [OF assms])
  also have "\<dots> = filter (\<lambda>d. getTime d = t) (filter R (map ds xs))"
    by (simp add: conj_commute)
  finally show ?thesis .
qed

lemma insertionOrder_permuted:
  assumes "mset (history data') = mset (history data)"
    and "mset (pending_weeks data') = mset (pending_weeks data)"
    and "mset (forecast data') = mset (forecast data)"
    and "distinct (map (\<lambda>p. getTime (ds p)) (history data))"
    and "distinct (map (\<lambda>p. getTime (ds p)) (pending_weeks data))"
    and "distinct (map (\<lambda>p. getTime (ds p)) (forecast data))"
  shows "filter (\<lambda>d. getTime d = t) (insertionOrder data')
       = filter (\<lambda>d. getTime d = t) (insertionOrder data)"
proof -
  have sh: "set (map ds (history data')) = set (map ds (history data))"
    using assms(1) by (metis mset_map set_mset_mset)
  have sp: "set (map ds (pending_weeks data')) = set (map ds (pending_weeks data))"
    using assms(2) by (metis mset_map set_mset_mset)
  have s2: "set (map ds (history data') @ filter (\<lambda>d. d \<notin> set (map ds (history data'))) (map ds (pending_weeks data')))
      = set (map ds (history data) @ filter (\<lambda>d. d \<notin> set (map ds (history data))) (map ds (pending_weeks data)))"
    using sh sp by auto
  show ?thesis
    unfolding insertionOrder_def Let_def filter_append s2
    unfolding sh
    by (simp only: filter_time_permuted [OF assms(1,4)] filter_time_new_permuted [OF assms(2,5)]
        filter_time_new_permuted [OF assms(3,6)])
qed

lemma rowOf_permuted:
  assumes "mset (history data') = mset (history data)"
    and "mset (pending_weeks data') = mset (pending_weeks data)"
    and "mset (forecast data') = mset (forecast data)"
    and "distinct (map ds (history data))" and "distinct (map ds (pending_weeks data))"
    and "distinct (map ds (forecast data))"
  shows "rowOf data' d = rowOf data d"
  unfolding rowOf_def
  by (simp only: filter_key_permuted [OF assms(1) assms(4)] filter_key_permuted [OF assms(2) assms(5)]
      filter_key_permuted [OF assms(3) assms(6)])

lemma datesOf_permuted:
  assumes "mset (history data') = mset (history data)"
    and "mset (pending_weeks data') = mset (pending_weeks data)"
    and "mset (forecast data') = mset (forecast data)"
  shows "set (datesOf data') = set (datesOf data)"
proof -
  have "set (history data') = set (history data)" "set (pending_weeks data') = set (pending_weeks data)"
    "set (forecast data') = set (forecast data)"
    using assms by (metis set_mset_mset)+
  then show ?thesis by (simp add: datesOf_def)
qed

section \<open>The claims\<close>

text \<open>
  Claim C1. Whatever the three collections hold, as long as every date in them is a
  calendar date (the parser gives a time for it), the merged timeline has exactly one
  row for each distinct date that occurs in a collection: the dates of the rows are
  the dates of the input, no two rows share a date, and there are as many rows as
  distinct dates. The rows are in ascending order of the time of their dates, the
  order of the calendar and not that of the strings. Distinct dates within each
  collection, which the claim supposes, are not needed for this.
\<close>

theorem merge_one_row_per_date_sorted:
  assumes "\<forall>d\<in>set (datesOf data). getTime d \<noteq> None"
  shows "set (map date (allRows getTime data)) = set (datesOf data)
    \<and> distinct (map date (allRows getTime data))
    \<and> length (allRows getTime data) = card (set (datesOf data))
    \<and> sorted (map (timeValue getTime) (allRows getTime data))"
proof -
  let ?b = "buildRows data" and ?s = "sortRows getTime (buildRows data)"
  have d: "map date (allRows getTime data) = map date ?s"
    by (simp add: allRows_def map_manualConnectorPass)
  have s1: "set (map date ?s) = set (datesOf data)"
    using set_date_buildRows [of data] by simp
  have s2: "distinct (map date ?s)"
    by (simp add: distinct_date_sortRows distinct_date_buildRows)
  have "length (map date ?s) = card (set (map date ?s))"
    using s2 by (rule distinct_card [symmetric])
  then have s3: "length (allRows getTime data) = card (set (datesOf data))"
    using d s1 by (metis length_map)
  have v: "\<forall>r\<in>set ?b. rowTime getTime r \<noteq> None"
    using assms set_date_buildRows [of data] by (auto simp: rowTime_def)
  have "map (timeValue getTime) (allRows getTime data) = map (timeValue getTime) ?s"
    by (simp add: allRows_def map_manualConnectorPass)
  then have s4: "sorted (map (timeValue getTime) (allRows getTime data))"
    using sorted_sortRows [OF v] by simp
  show ?thesis using d s1 s2 s3 s4 by simp
qed

theorem merge_one_row_per_date_sorted_witness:
  "list_all (\<lambda>d. isoDateTime d \<noteq> None) (datesOf weeks_unordered)
   \<and> map date (allRows isoDateTime weeks_unordered) = [''2024-01-01'', ''2024-01-08'', ''2024-01-15'']
   \<and> set (map date (allRows isoDateTime weeks_unordered)) = set (datesOf weeks_unordered)
   \<and> distinct (map date (allRows isoDateTime weeks_unordered))
   \<and> length (allRows isoDateTime weeks_unordered) = card (set (datesOf weeks_unordered))
   \<and> sorted (map (timeValue isoDateTime) (allRows isoDateTime weeks_unordered))"
proof -
  have v: "\<forall>d\<in>set (datesOf weeks_unordered). isoDateTime d \<noteq> None"
    by code_simp
  have l: "list_all (\<lambda>d. isoDateTime d \<noteq> None) (datesOf weeks_unordered)"
    using v by (simp add: list_all_iff)
  have m: "map date (allRows isoDateTime weeks_unordered) = [''2024-01-01'', ''2024-01-08'', ''2024-01-15'']"
    by code_simp
  show ?thesis
    using l m merge_one_row_per_date_sorted [OF v] by blast
qed

text \<open>
  Claim C2. Take any array of rows and an index \<open>i\<close> whose row is a manual correction
  with a value. When the pass has done step \<open>i\<close>, row \<open>i\<close> has its own value as
  connector value and no fill line, and it still has both when the pass ends. The row
  before it, if there is one, is left alone when it already holds a connector value or
  when its actual, fill and forecast values are all null; otherwise it gets as connector
  value the first of these three that is not null, and nothing else of it changes, its
  fill line included. The row after it is treated the same way, except that its fill
  line is cleared when it gets a connector value. Every other row is as it was before
  the step.
\<close>

theorem manual_connector_step:
  assumes "i < length rows" and "isManualRow (rows ! i)"
  shows "manualConnector (passUpTo rows (Suc i) ! i) = actualReal (rows ! i)
    \<and> filledLineValue (passUpTo rows (Suc i) ! i) = None
    \<and> manualConnector (manualConnectorPass rows ! i) = actualReal (rows ! i)
    \<and> filledLineValue (manualConnectorPass rows ! i) = None
    \<and> (0 < i \<longrightarrow>
         passUpTo rows (Suc i) ! (i - 1) =
           (let neighbor = passUpTo rows i ! (i - 1) in
            if manualConnector neighbor \<noteq> None \<or> bestValue neighbor = None then neighbor
            else neighbor\<lparr>manualConnector := bestValue neighbor\<rparr>))
    \<and> (i + 1 < length rows \<longrightarrow>
         passUpTo rows (Suc i) ! (i + 1) =
           (let neighbor = passUpTo rows i ! (i + 1) in
            if manualConnector neighbor \<noteq> None \<or> bestValue neighbor = None then neighbor
            else neighbor\<lparr>manualConnector := bestValue neighbor, filledLineValue := None\<rparr>))
    \<and> (\<forall>j<length rows. j \<noteq> i \<and> j + 1 \<noteq> i \<and> j \<noteq> i + 1 \<longrightarrow>
         passUpTo rows (Suc i) ! j = passUpTo rows i ! j)
    \<and> (\<forall>r. bestValue r =
         (case actualReal r of Some v \<Rightarrow> Some v
          | None \<Rightarrow> (case filledValue r of Some v \<Rightarrow> Some v | None \<Rightarrow> forecastValue r)))"
proof -
  let ?B = "passUpTo rows i"
  let ?A = "passUpTo rows (Suc i)"
  have A: "?A = connectRow ?B i" by (simp add: passUpTo_def)
  have m: "isManualRow (?B ! i)"
    using assms by (simp add: passUpTo_def nth_foldl_connectRow)
  have own: "manualConnector (?A ! i) = actualReal (rows ! i) \<and> filledLineValue (?A ! i) = None"
    using own_row_after [OF assms, of "Suc i"] assms(1) by (simp add: passUpTo_def)
  have fin: "manualConnector (manualConnectorPass rows ! i) = actualReal (rows ! i)
      \<and> filledLineValue (manualConnectorPass rows ! i) = None"
    unfolding manualConnectorPass_def
    using own_row_after [OF assms, of "length rows"] assms(1) by simp
  have pred: "?A ! (i - 1) =
        (let neighbor = ?B ! (i - 1) in
         if manualConnector neighbor \<noteq> None \<or> bestValue neighbor = None then neighbor
         else neighbor\<lparr>manualConnector := bestValue neighbor\<rparr>)" if "0 < i"
  proof -
    have "?A ! (i - 1) = linkRow (?B ! (i - 1)) False"
      unfolding A using that assms(1) m by (simp add: nth_connectRow)
    then show ?thesis by (simp add: linkRow_def Let_def)
  qed
  have succ: "?A ! (i + 1) =
        (let neighbor = ?B ! (i + 1) in
         if manualConnector neighbor \<noteq> None \<or> bestValue neighbor = None then neighbor
         else neighbor\<lparr>manualConnector := bestValue neighbor, filledLineValue := None\<rparr>)"
    if "i + 1 < length rows"
  proof -
    have "?A ! (i + 1) = linkRow (?B ! (i + 1)) True"
      unfolding A using that assms(1) m by (simp add: nth_connectRow)
    then show ?thesis by (simp add: linkRow_def Let_def)
  qed
  have rest: "?A ! j = ?B ! j" if "j < length rows" "j \<noteq> i" "j + 1 \<noteq> i" "j \<noteq> i + 1" for j
    unfolding A using that assms(1) by (simp add: nth_connectRow)
  have best: "bestValue r =
         (case actualReal r of Some v \<Rightarrow> Some v
          | None \<Rightarrow> (case filledValue r of Some v \<Rightarrow> Some v | None \<Rightarrow> forecastValue r))" for r
    by (simp add: bestValue_def nullish_def split: option.splits)
  show ?thesis
    using own fin pred succ rest best by blast
qed

theorem manual_connector_step_witness:
  "1 < length (sortRows isoDateTime (buildRows weeks_manual_between))
   \<and> isManualRow (sortRows isoDateTime (buildRows weeks_manual_between) ! 1)
   \<and> manualConnector (manualConnectorPass (sortRows isoDateTime (buildRows weeks_manual_between)) ! 1)
       = Some (Finite 6)
   \<and> filledLineValue (manualConnectorPass (sortRows isoDateTime (buildRows weeks_manual_between)) ! 1)
       = None
   \<and> map manualConnector (allRows isoDateTime weeks_manual_between)
       = [Some (Finite 3), Some (Finite 6), Some (Finite 4)]"
proof -
  let ?rows = "sortRows isoDateTime (buildRows weeks_manual_between)"
  have h1: "1 < length ?rows" by code_simp
  have h2: "isManualRow (?rows ! 1)" by code_simp
  have a: "actualReal (?rows ! 1) = Some (Finite 6)" by code_simp
  have m: "map manualConnector (allRows isoDateTime weeks_manual_between)
       = [Some (Finite 3), Some (Finite 6), Some (Finite 4)]" by code_simp
  show ?thesis
    using h1 h2 a m manual_connector_step [OF h1 h2] by simp
qed

text \<open>
  Claim C3. When the history holds each date at most once and has an observed or manual
  point for a date, the merged row of that date has the value and the source of that
  point, whatever actual the forecast attaches to the date. A forecast point writes the
  actual value of a row only when the row has none and its own actual is a finite
  number; the source of the row is then observed; in every other case the actual value
  and its source stay as they were, so an actual of null leaves a null in place. For a
  date with no observed or manual history point the merged row therefore has the actual
  of the first forecast point of that date with a finite actual, and null when there is
  none.
\<close>

theorem history_actual_wins:
  "(distinct (map ds (history data)) \<and> p \<in> set (history data)
      \<and> (source p = observed \<or> source p = manual)
    \<longrightarrow> (\<exists>r. rowsMap_get (allRows getTime data) (ds p) = Some r
           \<and> actualReal r = Some (y p) \<and> actualSource r = Some (source p)))
   \<and> actualReal (mergeForecast f row) =
       (if actualReal row = None \<and> isFiniteNumber (actual f) then actual f else actualReal row)
   \<and> actualSource (mergeForecast f row) =
       (if actualReal row = None \<and> isFiniteNumber (actual f) then Some observed else actualSource row)
   \<and> (d \<in> set (datesOf data)
      \<and> (\<forall>p\<in>set (history data). ds p = d \<longrightarrow> source p \<noteq> observed \<and> source p \<noteq> manual)
    \<longrightarrow> (\<exists>r. rowsMap_get (allRows getTime data) d = Some r
           \<and> actualReal r =
               (case find (\<lambda>f. ds f = d \<and> isFiniteNumber (actual f)) (forecast data) of
                  None \<Rightarrow> None | Some f \<Rightarrow> actual f)
           \<and> actualSource r =
               (case find (\<lambda>f. ds f = d \<and> isFiniteNumber (actual f)) (forecast data) of
                  None \<Rightarrow> None | Some f \<Rightarrow> Some observed)))"
proof -
  have field: "\<exists>r. rowsMap_get (allRows getTime data) e = Some r
      \<and> actualReal r = actualReal (rowOf data e) \<and> actualSource r = actualSource (rowOf data e)"
    if e: "e \<in> set (datesOf data)" for e
  proof -
    obtain j where j: "j < length (buildRows data)" "date (allRows getTime data ! j) = e"
      "rowsMap_get (allRows getTime data) e = Some (allRows getTime data ! j)"
      using allRows_index [OF e] by blast
    have "actualReal (allRows getTime data ! j) = actualReal (rowOf data e)"
      "actualSource (allRows getTime data ! j) = actualSource (rowOf data e)"
      using untouched_nth_allRows [OF _ j(1), of actualReal getTime]
        untouched_nth_allRows [OF _ j(1), of actualSource getTime] j(2) by simp_all
    with j(3) show ?thesis by simp
  qed
  have a: "\<exists>r. rowsMap_get (allRows getTime data) (ds p) = Some r
           \<and> actualReal r = Some (y p) \<and> actualSource r = Some (source p)"
    if "distinct (map ds (history data))" "p \<in> set (history data)"
      "source p = observed \<or> source p = manual"
  proof -
    have "ds p \<in> set (datesOf data)"
      using that(2) by (simp add: datesOf_def)
    from field [OF this] actual_rowOf_history [OF that] show ?thesis by simp
  qed
  have b: "\<exists>r. rowsMap_get (allRows getTime data) d = Some r
           \<and> actualReal r =
               (case find (\<lambda>f. ds f = d \<and> isFiniteNumber (actual f)) (forecast data) of
                  None \<Rightarrow> None | Some f \<Rightarrow> actual f)
           \<and> actualSource r =
               (case find (\<lambda>f. ds f = d \<and> isFiniteNumber (actual f)) (forecast data) of
                  None \<Rightarrow> None | Some f \<Rightarrow> Some observed)"
    if "d \<in> set (datesOf data)"
      "\<forall>p\<in>set (history data). ds p = d \<longrightarrow> source p \<noteq> observed \<and> source p \<noteq> manual"
    using field [OF that(1)] actual_rowOf_no_history [OF that(2)] by simp
  show ?thesis
    using a b by (simp add: actual_mergeForecast)
qed

theorem history_actual_wins_witness:
  "distinct (map ds (history observed_and_forecast_actual))
   \<and> \<lparr> ds = ''2024-01-01'', y = Finite 3, source = observed \<rparr> \<in> set (history observed_and_forecast_actual)
   \<and> (\<exists>r. rowsMap_get (allRows isoDateTime observed_and_forecast_actual) ''2024-01-01'' = Some r
         \<and> actualReal r = Some (Finite 3) \<and> actualSource r = Some observed)
   \<and> ''2024-01-15'' \<in> set (datesOf observed_and_forecast_actual)
   \<and> ''2024-01-15'' \<notin> set (map ds (history observed_and_forecast_actual))
   \<and> (\<exists>r. rowsMap_get (allRows isoDateTime observed_and_forecast_actual) ''2024-01-15'' = Some r
         \<and> actualReal r = Some (Finite 7) \<and> actualSource r = Some observed)
   \<and> map actualReal (allRows isoDateTime observed_and_forecast_actual)
       = [Some (Finite 3), None, Some (Finite 7)]
   \<and> map actualSource (allRows isoDateTime observed_and_forecast_actual)
       = [Some observed, None, Some observed]"
proof -
  let ?p = "\<lparr> ds = ''2024-01-01'', y = Finite 3, source = observed \<rparr>"
  let ?f = "\<lparr> ds = ''2024-01-15'', horizon = Finite 3, y_pred = Finite 12, actual = Some (Finite 7) \<rparr>"
  have h1: "distinct (map ds (history observed_and_forecast_actual))" by code_simp
  have h2: "?p \<in> set (history observed_and_forecast_actual)" by code_simp
  have h3: "''2024-01-15'' \<in> set (datesOf observed_and_forecast_actual)" by code_simp
  have h4: "''2024-01-15'' \<notin> set (map ds (history observed_and_forecast_actual))" by code_simp
  have h5: "\<forall>p\<in>set (history observed_and_forecast_actual).
      ds p = ''2024-01-15'' \<longrightarrow> source p \<noteq> observed \<and> source p \<noteq> manual"
  proof (intro ballI impI)
    fix p
    assume "p \<in> set (history observed_and_forecast_actual)" and "ds p = ''2024-01-15''"
    then have "''2024-01-15'' \<in> set (map ds (history observed_and_forecast_actual))"
      by force
    with h4 show "source p \<noteq> observed \<and> source p \<noteq> manual"
      by blast
  qed
  have f: "find (\<lambda>f. ds f = ''2024-01-15'' \<and> isFiniteNumber (actual f))
      (forecast observed_and_forecast_actual) = Some ?f"
    by code_simp
  have m: "map actualReal (allRows isoDateTime observed_and_forecast_actual)
       = [Some (Finite 3), None, Some (Finite 7)]" by code_simp
  have s: "map actualSource (allRows isoDateTime observed_and_forecast_actual)
       = [Some observed, None, Some observed]" by code_simp
  note t = history_actual_wins [of observed_and_forecast_actual ?p isoDateTime _ _ "''2024-01-15''"]
  have a: "\<exists>r. rowsMap_get (allRows isoDateTime observed_and_forecast_actual) ''2024-01-01'' = Some r
         \<and> actualReal r = Some (Finite 3) \<and> actualSource r = Some observed"
    using t h1 h2 by simp
  have b: "\<exists>r. rowsMap_get (allRows isoDateTime observed_and_forecast_actual) ''2024-01-15'' = Some r
         \<and> actualReal r = Some (Finite 7) \<and> actualSource r = Some observed"
    using t h3 h5 f by simp
  show ?thesis
    using h1 h2 h3 h4 a b m s by (intro conjI)
qed

text \<open>
  Claim C4. Take rows in strictly ascending order of time, as the merge produces them
  from calendar dates (lemma \<open>ascending_allRows\<close>), a positive history window and at
  least that many timeline rows.
  The selector returns the compact base followed by the forecast tail. The timeline rows
  of the compact base are exactly the last \<open>historyWindow\<close> timeline rows; a row is in
  the compact base if and only if its time lies between the time of the first of these
  and the time of the last timeline row, both included; the compact base ends with the
  last timeline row. The forecast tail is made of the first \<open>forecastWindow\<close> rows, in
  the order of the rows, among those later than the last timeline row that have a
  forecast value; none of them is a timeline row. So the result holds exactly
  \<open>historyWindow\<close> timeline rows and at most \<open>forecastWindow\<close> rows after them, in
  ascending order.
\<close>

theorem selectWindow_recent_history:
  assumes "ascending getTime rows" and "0 < historyWindow"
    and "nat historyWindow \<le> length (timelineRows rows)"
  shows "selectWindow getTime rows historyWindow forecastWindow
       = Inr (compactBase getTime rows historyWindow @ forecastTail getTime rows forecastWindow)
    \<and> filter isTimelineRow (compactBase getTime rows historyWindow)
       = drop (length (timelineRows rows) - nat historyWindow) (timelineRows rows)
    \<and> length (filter isTimelineRow (compactBase getTime rows historyWindow)) = nat historyWindow
    \<and> (\<forall>r\<in>set rows. r \<in> set (compactBase getTime rows historyWindow) \<longleftrightarrow>
         timeValue getTime (timelineRows rows ! (length (timelineRows rows) - nat historyWindow))
           \<le> timeValue getTime r
         \<and> timeValue getTime r \<le> timeValue getTime (last (timelineRows rows)))
    \<and> last (compactBase getTime rows historyWindow) = last (timelineRows rows)
    \<and> forecastTail getTime rows forecastWindow
       = take (nat forecastWindow)
           (filter (\<lambda>row. timeValue getTime (last (timelineRows rows)) < timeValue getTime row
                         \<and> forecastValue row \<noteq> None) rows)
    \<and> length (forecastTail getTime rows forecastWindow) \<le> nat forecastWindow
    \<and> (\<forall>r\<in>set (forecastTail getTime rows forecastWindow). \<not> isTimelineRow r)
    \<and> length (filter isTimelineRow
         (compactBase getTime rows historyWindow @ forecastTail getTime rows forecastWindow))
       = nat historyWindow
    \<and> ascending getTime
         (compactBase getTime rows historyWindow @ forecastTail getTime rows forecastWindow)"
proof -
  let ?T = "timelineRows rows"
  let ?B = "compactBase getTime rows historyWindow"
  let ?F = "forecastTail getTime rows forecastWindow"
  have T: "?T \<noteq> []"
    using assms(2,3) by auto
  have inB: "last ?T \<in> set ?B"
    using assms(1) T assms(2) by (rule last_timeline_in_compactBase)
  then have "?B @ ?F \<noteq> []" by auto
  then have c1: "selectWindow getTime rows historyWindow forecastWindow = Inr (?B @ ?F)"
    by (simp add: selectWindow_window [OF T assms(2)])
  have c2: "filter isTimelineRow ?B = drop (length ?T - nat historyWindow) ?T"
    using assms(1) T assms(2) by (rule compactBase_timeline)
  have c3: "length (filter isTimelineRow ?B) = nat historyWindow"
    unfolding c2 using assms(3) by simp
  have c4: "\<forall>r\<in>set rows. r \<in> set ?B \<longleftrightarrow>
         timeValue getTime (?T ! (length ?T - nat historyWindow)) \<le> timeValue getTime r
         \<and> timeValue getTime r \<le> timeValue getTime (last ?T)"
    using compactBase_bounds [OF assms(1) T assms(2)] by blast
  have c5: "last ?B = last ?T"
    using assms(1) T assms(2) by (rule last_compactBase)
  have sub: "set ?T \<subseteq> set rows" by (auto simp: timelineRows_def)
  have vl: "rowTime getTime (last ?T) \<noteq> None"
    using ascending_valid [OF assms(1)] sub T by (meson last_in_set subsetD)
  have "filter (\<lambda>row. time_less (windowEndTime getTime rows) (rowTime getTime row)
                     \<and> forecastValue row \<noteq> None) rows
      = filter (\<lambda>row. timeValue getTime (last ?T) < timeValue getTime row
                     \<and> forecastValue row \<noteq> None) rows"
  proof (rule filter_cong [OF refl])
    fix r assume "r \<in> set rows"
    then have "rowTime getTime r \<noteq> None"
      using assms(1) by (simp add: ascending_valid)
    from time_less_valid [OF vl this]
    show "(time_less (windowEndTime getTime rows) (rowTime getTime r) \<and> forecastValue r \<noteq> None)
        = (timeValue getTime (last ?T) < timeValue getTime r \<and> forecastValue r \<noteq> None)"
      by (simp add: windowEndTime_def rowTime_def)
  qed
  then have c6: "?F = take (nat forecastWindow)
           (filter (\<lambda>row. timeValue getTime (last ?T) < timeValue getTime row
                         \<and> forecastValue row \<noteq> None) rows)"
    by (simp add: forecastTail_def)
  have c7: "length ?F \<le> nat forecastWindow"
    by (simp add: forecastTail_def)
  have c8: "\<forall>r\<in>set ?F. \<not> isTimelineRow r"
    using forecastTail_not_timeline [OF assms(1) T] by blast
  then have "filter isTimelineRow ?F = []"
    by (simp add: filter_empty_conv)
  then have c9: "length (filter isTimelineRow (?B @ ?F)) = nat historyWindow"
    using c3 by simp
  have c10: "ascending getTime (?B @ ?F)"
    using assms(1) T assms(2) by (rule ascending_window)
  show ?thesis
    using c1 c2 c3 c4 c5 c6 c7 c8 c9 c10 by (intro conjI)
qed

theorem selectWindow_recent_history_witness:
  "ascending isoDateTime (allRows isoDateTime thirty_weeks)
   \<and> length (timelineRows (allRows isoDateTime thirty_weeks)) = 30
   \<and> map_sum id (map date) (selectWindow isoDateTime (allRows isoDateTime thirty_weeks) 15 2)
       = Inr [''2024-04-15'', ''2024-04-22'', ''2024-04-29'', ''2024-05-06'', ''2024-05-13'', ''2024-05-20'', ''2024-05-27'', ''2024-06-03'', ''2024-06-10'', ''2024-06-17'', ''2024-06-24'', ''2024-07-01'', ''2024-07-08'', ''2024-07-15'', ''2024-07-22'', ''2024-07-29'', ''2024-08-05'']
   \<and> selectWindow isoDateTime (allRows isoDateTime thirty_weeks) 15 2
       = Inr (compactBase isoDateTime (allRows isoDateTime thirty_weeks) 15
              @ forecastTail isoDateTime (allRows isoDateTime thirty_weeks) 2)
   \<and> length (filter isTimelineRow (compactBase isoDateTime (allRows isoDateTime thirty_weeks) 15)) = 15
   \<and> length (forecastTail isoDateTime (allRows isoDateTime thirty_weeks) 2) \<le> 2"
proof -
  let ?R = "allRows isoDateTime thirty_weeks"
  have h1: "ascending isoDateTime ?R" by (rule thirty_weeks_ascending)
  have h2: "(0::int) < 15" by simp
  have n: "length (timelineRows ?R) = 30" by (rule thirty_weeks_timeline)
  then have h3: "nat 15 \<le> length (timelineRows ?R)" by simp
  show ?thesis
    using h1 n thirty_weeks_window selectWindow_recent_history [OF h1 h2 h3, of 2] by simp
qed

text \<open>
  Claim C5, as amended. Whatever the response holds and whatever \<open>Number\<close> makes of
  its strings, the collections that \<open>fetchForecast\<close> hands on hold finite numbers only:
  \<open>toNumeric\<close> gives \<open>null\<close> exactly for a value that is neither a finite number nor a
  string that converts to one, and such a value becomes \<open>0\<close> as the case count of a
  history point and as the prediction of a pending or forecast point (the point is
  kept), and \<open>null\<close> as the actual of a forecast point. The horizon index is converted
  with \<open>Number\<close> and not checked; the merge does not read it. In the merged timeline of
  these collections no channel (actual, fill, fill line, forecast, connector) holds
  \<open>NaN\<close> or an infinity.
\<close>

theorem boundary_values_finite:
  "(\<forall>p\<in>set (history (transformed toNumber apiData)). isFinite (y p))
   \<and> (\<forall>p\<in>set (pending_weeks (transformed toNumber apiData)). isFinite (prediction p))
   \<and> (\<forall>p\<in>set (forecast (transformed toNumber apiData)).
        isFinite (y_pred p) \<and> (actual p = None \<or> isFiniteNumber (actual p)))
   \<and> (toNumeric toNumber v = None \<longleftrightarrow>
        \<not> (case v of JNumber n \<Rightarrow> isFinite n | JString s \<Rightarrow> isFinite (toNumber (JString s)) | _ \<Rightarrow> False))
   \<and> (toNumeric toNumber (cases hi) = None \<longrightarrow> y (transformHistory toNumber hi) = Finite 0)
   \<and> (toNumeric toNumber (pending_prediction pe) = None \<longrightarrow>
        prediction (transformPending toNumber pe) = Finite 0)
   \<and> (toNumeric toNumber (forecast_prediction fi) = None \<longrightarrow>
        y_pred (transformForecast toNumber fi) = Finite 0)
   \<and> (toNumeric toNumber (forecast_actual fi) = None \<longrightarrow>
        actual (transformForecast toNumber fi) = None)
   \<and> horizon (transformForecast toNumber fi) =
        toNumber (case h fi of JUndefined \<Rightarrow> JNumber (Finite 0) | JNull \<Rightarrow> JNumber (Finite 0) | w \<Rightarrow> w)
   \<and> (\<forall>r\<in>set (allRows getTime (transformed toNumber apiData)).
        actualReal r \<notin> {Some NaN, Some PosInfinity, Some NegInfinity}
        \<and> filledValue r \<notin> {Some NaN, Some PosInfinity, Some NegInfinity}
        \<and> filledLineValue r \<notin> {Some NaN, Some PosInfinity, Some NegInfinity}
        \<and> forecastValue r \<notin> {Some NaN, Some PosInfinity, Some NegInfinity}
        \<and> manualConnector r \<notin> {Some NaN, Some PosInfinity, Some NegInfinity})"
proof -
  note f = finiteResponse_transformed [of toNumber apiData]
  have c1: "\<forall>p\<in>set (history (transformed toNumber apiData)). isFinite (y p)"
    using f by (simp add: finiteResponse_def list_all_iff)
  have c2: "\<forall>p\<in>set (pending_weeks (transformed toNumber apiData)). isFinite (prediction p)"
    using f by (simp add: finiteResponse_def list_all_iff)
  have c3: "\<forall>p\<in>set (forecast (transformed toNumber apiData)).
        isFinite (y_pred p) \<and> (actual p = None \<or> isFiniteNumber (actual p))"
    using f by (auto simp: finiteResponse_def list_all_iff finiteOrNull_def isFiniteNumber_def
        split: option.splits)
  have c4: "toNumeric toNumber v = None \<longleftrightarrow>
        \<not> (case v of JNumber n \<Rightarrow> isFinite n | JString s \<Rightarrow> isFinite (toNumber (JString s)) | _ \<Rightarrow> False)"
    by (cases v) (simp_all add: toNumeric_def)
  have c5: "toNumeric toNumber (cases hi) = None \<longrightarrow> y (transformHistory toNumber hi) = Finite 0"
    by (simp add: transformHistory_def orElse_def)
  have c6: "toNumeric toNumber (pending_prediction pe) = None \<longrightarrow>
        prediction (transformPending toNumber pe) = Finite 0"
    by (simp add: transformPending_def orElse_def)
  have c7: "toNumeric toNumber (forecast_prediction fi) = None \<longrightarrow>
        y_pred (transformForecast toNumber fi) = Finite 0"
    by (simp add: transformForecast_def orElse_def)
  have c8: "toNumeric toNumber (forecast_actual fi) = None \<longrightarrow>
        actual (transformForecast toNumber fi) = None"
    by (simp add: transformForecast_def)
  have c9: "horizon (transformForecast toNumber fi) =
        toNumber (case h fi of JUndefined \<Rightarrow> JNumber (Finite 0) | JNull \<Rightarrow> JNumber (Finite 0) | w \<Rightarrow> w)"
    by (simp add: transformForecast_def)
  have n: "finiteOrNull w \<Longrightarrow> w \<notin> {Some NaN, Some PosInfinity, Some NegInfinity}" for w
    by (auto simp: finiteOrNull_def)
  have c10: "\<forall>r\<in>set (allRows getTime (transformed toNumber apiData)).
        actualReal r \<notin> {Some NaN, Some PosInfinity, Some NegInfinity}
        \<and> filledValue r \<notin> {Some NaN, Some PosInfinity, Some NegInfinity}
        \<and> filledLineValue r \<notin> {Some NaN, Some PosInfinity, Some NegInfinity}
        \<and> forecastValue r \<notin> {Some NaN, Some PosInfinity, Some NegInfinity}
        \<and> manualConnector r \<notin> {Some NaN, Some PosInfinity, Some NegInfinity}"
  proof
    fix r assume "r \<in> set (allRows getTime (transformed toNumber apiData))"
    then have "channelsFinite r"
      using f by (rule channelsFinite_allRows [rotated])
    then show "actualReal r \<notin> {Some NaN, Some PosInfinity, Some NegInfinity}
        \<and> filledValue r \<notin> {Some NaN, Some PosInfinity, Some NegInfinity}
        \<and> filledLineValue r \<notin> {Some NaN, Some PosInfinity, Some NegInfinity}
        \<and> forecastValue r \<notin> {Some NaN, Some PosInfinity, Some NegInfinity}
        \<and> manualConnector r \<notin> {Some NaN, Some PosInfinity, Some NegInfinity}"
      unfolding channelsFinite_def by (intro conjI n) simp_all
  qed
  show ?thesis
    using c1 c2 c3 c4 c5 c6 c7 c8 c9 c10 by (intro conjI)
qed

theorem boundary_values_finite_witness:
  "history (transformed numberOfNumber response_with_invalid_fields)
     = [\<lparr> ds = ''2024-01-01'', y = Finite 3, source = observed \<rparr>,
        \<lparr> ds = ''2024-01-08'', y = Finite 0, source = observed \<rparr>]
   \<and> forecast (transformed numberOfNumber response_with_invalid_fields)
     = [\<lparr> ds = ''2024-01-15'', horizon = Finite 1, y_pred = Finite 9, actual = None \<rparr>]
   \<and> list_all (\<lambda>p. isFinite (y p)) (history (transformed numberOfNumber response_with_invalid_fields))
   \<and> list_all (\<lambda>r. actualReal r \<notin> {Some NaN, Some PosInfinity, Some NegInfinity}
                   \<and> forecastValue r \<notin> {Some NaN, Some PosInfinity, Some NegInfinity})
        (allRows isoDateTime (transformed numberOfNumber response_with_invalid_fields))"
proof -
  have a: "history (transformed numberOfNumber response_with_invalid_fields)
     = [\<lparr> ds = ''2024-01-01'', y = Finite 3, source = observed \<rparr>,
        \<lparr> ds = ''2024-01-08'', y = Finite 0, source = observed \<rparr>]"
    by code_simp
  have b: "forecast (transformed numberOfNumber response_with_invalid_fields)
     = [\<lparr> ds = ''2024-01-15'', horizon = Finite 1, y_pred = Finite 9, actual = None \<rparr>]"
    by code_simp
  note t = boundary_values_finite [of numberOfNumber response_with_invalid_fields _ _ _ _ isoDateTime]
  have c: "list_all (\<lambda>p. isFinite (y p)) (history (transformed numberOfNumber response_with_invalid_fields))"
    using t unfolding list_all_iff by blast
  have d: "list_all (\<lambda>r. actualReal r \<notin> {Some NaN, Some PosInfinity, Some NegInfinity}
                   \<and> forecastValue r \<notin> {Some NaN, Some PosInfinity, Some NegInfinity})
        (allRows isoDateTime (transformed numberOfNumber response_with_invalid_fields))"
    using t unfolding list_all_iff by blast
  show ?thesis
    using a b c d by (intro conjI)
qed

text \<open>
  The claim as stated has an invalid field coerced to \<open>null\<close> or its point excluded.
  A case count of \<open>null\<close> is invalid for \<open>toNumeric\<close>, yet the week of 2024-01-08 is
  kept with the case count \<open>0\<close>, and the merged timeline shows it as an actual value
  of \<open>0\<close>.
\<close>

theorem invalid_cases_become_zero_counterexample:
  "toNumeric numberOfNumber JNull = None
   \<and> history (transformed numberOfNumber response_with_invalid_fields)
     = [\<lparr> ds = ''2024-01-01'', y = Finite 3, source = observed \<rparr>,
        \<lparr> ds = ''2024-01-08'', y = Finite 0, source = observed \<rparr>]
   \<and> map date (allRows isoDateTime (transformed numberOfNumber response_with_invalid_fields))
     = [''2024-01-01'', ''2024-01-08'', ''2024-01-15'']
   \<and> map actualReal (allRows isoDateTime (transformed numberOfNumber response_with_invalid_fields))
     = [Some (Finite 3), Some (Finite 0), None]"
  by code_simp

text \<open>
  Claim C6, as amended. When the pending weeks hold each date at most once, the merged
  row of a pending week has the prediction as its fill value, pending as its fill
  source and the pending flag set, whether or not the history has a synthetic or
  seasonal point for the same date. Before the manual-connector pass its fill line is
  the prediction too. In the merged timeline the fill line is the prediction unless the
  row itself or the row just before it is a manual correction with a value: then the
  pass has cleared it.
\<close>

theorem pending_values_on_merged_row:
  assumes "distinct (map ds (pending_weeks data))" and "q \<in> set (pending_weeks data)"
  shows "\<exists>j<length (allRows getTime data).
      rowsMap_get (allRows getTime data) (ds q) = Some (allRows getTime data ! j)
      \<and> filledValue (allRows getTime data ! j) = Some (prediction q)
      \<and> filledSource (allRows getTime data ! j) = Some pending
      \<and> isPending (allRows getTime data ! j) = Some True
      \<and> filledLineValue (sortRows getTime (buildRows data) ! j) = Some (prediction q)
      \<and> filledLineValue (allRows getTime data ! j) =
          (if isManualRow (allRows getTime data ! j)
              \<or> (0 < j \<and> isManualRow (allRows getTime data ! (j - 1)))
           then None else Some (prediction q))"
proof -
  have "ds q \<in> set (datesOf data)"
    using assms(2) by (simp add: datesOf_def)
  then obtain j where j: "j < length (buildRows data)" "date (allRows getTime data ! j) = ds q"
    "rowsMap_get (allRows getTime data) (ds q) = Some (allRows getTime data ! j)"
    using allRows_index by blast
  note built = fill_rowOf_pending [OF assms]
  have v: "filledValue (allRows getTime data ! j) = Some (prediction q)"
    using untouched_nth_allRows [OF _ j(1), of filledValue getTime] j(2) built by simp
  have s: "filledSource (allRows getTime data ! j) = Some pending"
    using untouched_nth_allRows [OF _ j(1), of filledSource getTime] j(2) built by simp
  have p: "isPending (allRows getTime data ! j) = Some True"
    using untouched_nth_allRows [OF _ j(1), of isPending getTime] j(2) built by simp
  have d: "date (sortRows getTime (buildRows data) ! j) = ds q"
    using j(1,2) by (simp add: nth_allRows untouched_connectedUpTo)
  have b: "filledLineValue (sortRows getTime (buildRows data) ! j) = Some (prediction q)"
    using sorted_rows_rowOf(1) [OF j(1), of getTime] d built by simp
  have l: "filledLineValue (allRows getTime data ! j) =
          (if isManualRow (allRows getTime data ! j)
              \<or> (0 < j \<and> isManualRow (allRows getTime data ! (j - 1)))
           then None else Some (prediction q))"
    using fill_line_allRows [OF j(1), of getTime] v j(2) built by simp
  show ?thesis
    using j(1,3) v s p b l by (intro exI [of _ j]) simp
qed

theorem pending_values_on_merged_row_witness:
  "distinct (map ds (pending_weeks pending_over_synthetic))
   \<and> \<lparr> ds = ''2024-01-08'', prediction = Finite 7 \<rparr> \<in> set (pending_weeks pending_over_synthetic)
   \<and> (\<exists>j<length (allRows isoDateTime pending_over_synthetic).
        rowsMap_get (allRows isoDateTime pending_over_synthetic) ''2024-01-08''
          = Some (allRows isoDateTime pending_over_synthetic ! j)
        \<and> filledValue (allRows isoDateTime pending_over_synthetic ! j) = Some (Finite 7)
        \<and> filledSource (allRows isoDateTime pending_over_synthetic ! j) = Some pending
        \<and> isPending (allRows isoDateTime pending_over_synthetic ! j) = Some True)
   \<and> map filledLineValue (allRows isoDateTime pending_over_synthetic) = [None, Some (Finite 7)]"
proof -
  let ?q = "\<lparr> ds = ''2024-01-08'', prediction = Finite 7 \<rparr>"
  have h1: "distinct (map ds (pending_weeks pending_over_synthetic))" by code_simp
  have h2: "?q \<in> set (pending_weeks pending_over_synthetic)" by code_simp
  have l: "map filledLineValue (allRows isoDateTime pending_over_synthetic) = [None, Some (Finite 7)]"
    by code_simp
  have "\<exists>j<length (allRows isoDateTime pending_over_synthetic).
        rowsMap_get (allRows isoDateTime pending_over_synthetic) ''2024-01-08''
          = Some (allRows isoDateTime pending_over_synthetic ! j)
        \<and> filledValue (allRows isoDateTime pending_over_synthetic ! j) = Some (Finite 7)
        \<and> filledSource (allRows isoDateTime pending_over_synthetic ! j) = Some pending
        \<and> isPending (allRows isoDateTime pending_over_synthetic ! j) = Some True"
    using pending_values_on_merged_row [OF h1 h2, of isoDateTime] by auto
  then show ?thesis
    using h1 h2 l by blast
qed

text \<open>
  The claim as stated gives the merged row the prediction as fill line. Here the week of
  2024-01-08 is a synthetic history point and a pending week with prediction 7, and it
  follows a manual correction: its merged row has the fill value 7 and no fill line.
\<close>

theorem pending_fill_line_cleared_counterexample:
  "\<lparr> ds = ''2024-01-08'', y = Finite 2, source = synthetic \<rparr> \<in> set (history pending_after_manual)
   \<and> \<lparr> ds = ''2024-01-08'', prediction = Finite 7 \<rparr> \<in> set (pending_weeks pending_after_manual)
   \<and> rowsMap_get (allRows isoDateTime pending_after_manual) ''2024-01-08'' =
       Some \<lparr> date = ''2024-01-08'', actualReal = None, filledValue = Some (Finite 7),
              filledLineValue = None, forecastValue = None, actualSource = None,
              filledSource = Some pending, hasHistory = True, hasForecast = False,
              isPending = Some True, manualConnector = Some (Finite 7) \<rparr>"
  by code_simp

text \<open>
  Claim C7. The rows of the chart are a function of the three collections, the two
  window parameters and the date parser: the source reads nothing else, so two runs on
  the same input give the same rows. They do not depend on the order of the elements
  either: when every date is a calendar date (the parser gives it a time) and, within
  each collection, different points have different times, collections with the same
  elements in another order give the same merged timeline and the same compact rows.
\<close>

theorem merge_order_independent:
  assumes "mset (history data') = mset (history data)"
    and "mset (pending_weeks data') = mset (pending_weeks data)"
    and "mset (forecast data') = mset (forecast data)"
    and "\<forall>d\<in>set (datesOf data). getTime d \<noteq> None"
    and "distinct (map (\<lambda>p. getTime (ds p)) (history data))"
    and "distinct (map (\<lambda>p. getTime (ds p)) (pending_weeks data))"
    and "distinct (map (\<lambda>p. getTime (ds p)) (forecast data))"
  shows "allRows getTime data' = allRows getTime data
    \<and> compactRows getTime data' historyWindow forecastWindow
       = compactRows getTime data historyWindow forecastWindow"
proof -
  note perm = assms(1-3)
  have dh: "distinct (map ds (history data))" and dp: "distinct (map ds (pending_weeks data))"
    and df: "distinct (map ds (forecast data))"
    using assms(5-7) by (auto dest: distinct_map_outer)
  have dh': "distinct (map ds (history data'))" and dp': "distinct (map ds (pending_weeks data'))"
    and df': "distinct (map ds (forecast data'))"
    using dh dp df perm by (metis mset_eq_imp_distinct_iff mset_map)+
  have d: "set (datesOf data') = set (datesOf data)"
    using perm by (rule datesOf_permuted)
  have r: "rowOf data' = rowOf data"
    using rowOf_permuted [OF perm dh dp df] by (simp add: fun_eq_iff)
  have b: "buildRows data = map (rowOf data) (insertionOrder data)"
    using buildRows_rowOf [of data] map_date_buildRows [OF dh dp df] by simp
  have b': "buildRows data' = map (rowOf data) (insertionOrder data')"
    using buildRows_rowOf [of data'] map_date_buildRows [OF dh' dp' df'] r by simp
  have v: "\<forall>r\<in>set (buildRows data). rowTime getTime r \<noteq> None"
    using assms(4) set_date_buildRows [of data] by (auto simp: rowTime_def)
  have v': "\<forall>r\<in>set (buildRows data'). rowTime getTime r \<noteq> None"
  proof
    fix r assume "r \<in> set (buildRows data')"
    then have "date r \<in> set (datesOf data)"
      using set_date_buildRows [of data'] d by blast
    then show "rowTime getTime r \<noteq> None"
      using assms(4) by (simp add: rowTime_def)
  qed
  have "set (buildRows data') = set (buildRows data)"
    by (auto simp: rowOf_in_buildRows d r)
  moreover have "distinct (buildRows data)" "distinct (buildRows data')"
    using distinct_date_buildRows by (metis distinct_map)+
  ultimately have m: "mset (buildRows data') = mset (buildRows data)"
    by (simp add: set_eq_iff_mset_eq_distinct)
  have ties: "filter (\<lambda>r. timeValue getTime r = c) (buildRows data')
      = filter (\<lambda>r. timeValue getTime r = c) (buildRows data)" for c
  proof -
    have t: "timeValue getTime (rowOf data e) = c \<longleftrightarrow> getTime e = Some c"
      if "e \<in> set (datesOf data)" for e
      using assms(4) that by (auto simp: timeValue_def rowTime_def)
    have i: "set (insertionOrder data) \<subseteq> set (datesOf data)"
      "set (insertionOrder data') \<subseteq> set (datesOf data)"
      using d by (auto simp: insertionOrder_def datesOf_def Let_def)
    have "filter (\<lambda>r. timeValue getTime r = c) (map (rowOf data) (insertionOrder data'))
        = map (rowOf data) (filter (\<lambda>e. getTime e = Some c) (insertionOrder data'))"
      unfolding filter_map comp_def using i(2) t by (intro arg_cong [where f = "map (rowOf data)"] filter_cong) auto
    moreover have "filter (\<lambda>r. timeValue getTime r = c) (map (rowOf data) (insertionOrder data))
        = map (rowOf data) (filter (\<lambda>e. getTime e = Some c) (insertionOrder data))"
      unfolding filter_map comp_def using i(1) t by (intro arg_cong [where f = "map (rowOf data)"] filter_cong) auto
    ultimately show ?thesis
      unfolding b b' using insertionOrder_permuted [OF perm assms(5-7), of "Some c"] by simp
  qed
  have "sortRows getTime (buildRows data') = sort_key (timeValue getTime) (buildRows data')"
    using v' by (rule sortRows_sort_key)
  also have "\<dots> = sort_key (timeValue getTime) (buildRows data)"
    using m ties by (rule sort_key_same_ties)
  also have "\<dots> = sortRows getTime (buildRows data)"
    using v by (rule sortRows_sort_key [symmetric])
  finally have "allRows getTime data' = allRows getTime data"
    by (simp add: allRows_def)
  then show ?thesis
    by (simp add: compactRows_def)
qed

theorem merge_order_independent_witness:
  "mset (history weeks_reordered) = mset (history history_then_forecast)
   \<and> mset (forecast weeks_reordered) = mset (forecast history_then_forecast)
   \<and> history weeks_reordered \<noteq> history history_then_forecast
   \<and> allRows isoDateTime weeks_reordered = allRows isoDateTime history_then_forecast
   \<and> compactRows isoDateTime weeks_reordered 2 1 = compactRows isoDateTime history_then_forecast 2 1
   \<and> map date (allRows isoDateTime weeks_reordered)
       = [''2024-01-01'', ''2024-01-08'', ''2024-01-15'', ''2024-01-22'', ''2024-01-29'']"
proof -
  have h1: "mset (history weeks_reordered) = mset (history history_then_forecast)"
    by (simp add: weeks_reordered_def history_then_forecast_def)
  have h2: "mset (pending_weeks weeks_reordered) = mset (pending_weeks history_then_forecast)"
    by (simp add: weeks_reordered_def history_then_forecast_def)
  have h3: "mset (forecast weeks_reordered) = mset (forecast history_then_forecast)"
    by (simp add: weeks_reordered_def history_then_forecast_def)
  have h4: "\<forall>d\<in>set (datesOf history_then_forecast). isoDateTime d \<noteq> None" by code_simp
  have h5: "distinct (map (\<lambda>p. isoDateTime (ds p)) (history history_then_forecast))" by code_simp
  have h6: "distinct (map (\<lambda>p. isoDateTime (ds p)) (pending_weeks history_then_forecast))" by code_simp
  have h7: "distinct (map (\<lambda>p. isoDateTime (ds p)) (forecast history_then_forecast))" by code_simp
  have n: "history weeks_reordered \<noteq> history history_then_forecast"
    by (simp add: weeks_reordered_def history_then_forecast_def)
  have m: "map date (allRows isoDateTime weeks_reordered)
       = [''2024-01-01'', ''2024-01-08'', ''2024-01-15'', ''2024-01-22'', ''2024-01-29'']"
    by code_simp
  show ?thesis
    using h1 h3 n m merge_order_independent [OF h1 h2 h3 h4 h5 h6 h7, of 2 1] by simp
qed

text \<open>
  Claim C8. For a history window that is positive, as the contract of the window
  selector requires, and rows that are not empty, the selector returns rows and they are
  not empty. When no row is a timeline row it returns the rows it was given. Otherwise
  it returns the compact base followed by the forecast tail, or, when both are empty,
  the rows it was given. (For a history window of zero or less and a timeline row
  present, the source reads outside \<open>timelineRows\<close> and throws; lemma
  \<open>selectWindow_TypeError\<close>.)
\<close>

theorem selectWindow_never_empty:
  assumes "rows \<noteq> []" and "0 < historyWindow"
  shows "(\<exists>out. selectWindow getTime rows historyWindow forecastWindow = Inr out \<and> out \<noteq> [])
    \<and> (timelineRows rows = [] \<longrightarrow>
         selectWindow getTime rows historyWindow forecastWindow = Inr rows)
    \<and> (timelineRows rows \<noteq> []
         \<and> compactBase getTime rows historyWindow @ forecastTail getTime rows forecastWindow = [] \<longrightarrow>
         selectWindow getTime rows historyWindow forecastWindow = Inr rows)
    \<and> (timelineRows rows \<noteq> []
         \<and> compactBase getTime rows historyWindow @ forecastTail getTime rows forecastWindow \<noteq> [] \<longrightarrow>
         selectWindow getTime rows historyWindow forecastWindow
           = Inr (compactBase getTime rows historyWindow @ forecastTail getTime rows forecastWindow))"
proof (cases "timelineRows rows = []")
  case True
  then show ?thesis
    using assms(1) by (simp add: selectWindow_no_timeline)
next
  case False
  show ?thesis
    using False assms(1) by (simp add: selectWindow_window [OF False assms(2)])
qed

theorem selectWindow_never_empty_witness:
  "allRows isoDateTime forecast_only \<noteq> []
   \<and> timelineRows (allRows isoDateTime forecast_only) = []
   \<and> selectWindow isoDateTime (allRows isoDateTime forecast_only) 15 2
       = Inr (allRows isoDateTime forecast_only)
   \<and> (\<exists>out. selectWindow isoDateTime (allRows isoDateTime forecast_only) 15 2 = Inr out \<and> out \<noteq> [])"
proof -
  have n: "allRows isoDateTime forecast_only \<noteq> []" by code_simp
  have t: "timelineRows (allRows isoDateTime forecast_only) = []" by code_simp
  have h: "(0::int) < 15" by simp
  show ?thesis
    using n t selectWindow_never_empty [OF n h, of isoDateTime 2] by simp
qed

text \<open>
  Claim C9. In every row of the merged timeline the fill line is null or equal to the
  fill value. The pending merge writes both fields with one value, and so does the
  history merge of a synthetic or seasonal point; the history merge of an observed or
  manual point and the forecast merge write neither. The manual-connector pass, on any
  array of rows, leaves every fill value as it is and every fill line as it is or null.
\<close>

theorem fill_line_null_or_fill:
  "(\<forall>r\<in>set (allRows getTime data). filledLineValue r = None \<or> filledLineValue r = filledValue r)
   \<and> filledLineValue (mergePending q row) = filledValue (mergePending q row)
   \<and> (source p \<noteq> observed \<and> source p \<noteq> manual \<longrightarrow>
        filledLineValue (mergeHistory p row) = filledValue (mergeHistory p row))
   \<and> (source p = observed \<or> source p = manual \<longrightarrow>
        filledLineValue (mergeHistory p row) = filledLineValue row
        \<and> filledValue (mergeHistory p row) = filledValue row)
   \<and> filledLineValue (mergeForecast f row) = filledLineValue row
   \<and> filledValue (mergeForecast f row) = filledValue row
   \<and> (\<forall>j<length rows.
        filledValue (manualConnectorPass rows ! j) = filledValue (rows ! j)
        \<and> (filledLineValue (manualConnectorPass rows ! j) = None
           \<or> filledLineValue (manualConnectorPass rows ! j) = filledLineValue (rows ! j)))"
proof -
  have merged: "\<forall>r\<in>set (allRows getTime data). filledLineValue r = None \<or> filledLineValue r = filledValue r"
    using fillLineConsistent_allRows [of _ getTime data] by (simp add: fillLineConsistent_def)
  have pass: "\<forall>j<length rows.
        filledValue (manualConnectorPass rows ! j) = filledValue (rows ! j)
        \<and> (filledLineValue (manualConnectorPass rows ! j) = None
           \<or> filledLineValue (manualConnectorPass rows ! j) = filledLineValue (rows ! j))"
    using clearsOnly_manualConnectorPass [of _ rows] by (simp add: clearsOnly_def)
  have m1: "filledLineValue (mergePending q row) = filledValue (mergePending q row)"
    by simp
  have m2: "source p \<noteq> observed \<and> source p \<noteq> manual \<longrightarrow>
        filledLineValue (mergeHistory p row) = filledValue (mergeHistory p row)"
    by (simp add: mergeHistory_def Let_def)
  have m3: "source p = observed \<or> source p = manual \<longrightarrow>
        filledLineValue (mergeHistory p row) = filledLineValue row
        \<and> filledValue (mergeHistory p row) = filledValue row"
    by (auto simp: mergeHistory_def Let_def)
  have m4: "filledLineValue (mergeForecast f row) = filledLineValue row"
    "filledValue (mergeForecast f row) = filledValue row"
    by simp_all
  show ?thesis
    using merged pass m1 m2 m3 m4 by (intro conjI)
qed

theorem fill_line_null_or_fill_witness:
  "list_all (\<lambda>r. filledLineValue r = None \<or> filledLineValue r = filledValue r)
     (allRows isoDateTime pending_after_manual)
   \<and> map filledValue (allRows isoDateTime pending_after_manual) = [None, Some (Finite 7)]
   \<and> map filledLineValue (allRows isoDateTime pending_after_manual) = [None, None]
   \<and> map filledLineValue (sortRows isoDateTime (buildRows pending_after_manual)) = [None, Some (Finite 7)]"
proof -
  have a: "map filledValue (allRows isoDateTime pending_after_manual) = [None, Some (Finite 7)]"
    by code_simp
  have b: "map filledLineValue (allRows isoDateTime pending_after_manual) = [None, None]"
    by code_simp
  have c: "map filledLineValue (sortRows isoDateTime (buildRows pending_after_manual)) = [None, Some (Finite 7)]"
    by code_simp
  have "\<forall>r\<in>set (allRows isoDateTime pending_after_manual).
      filledLineValue r = None \<or> filledLineValue r = filledValue r"
    using fill_line_null_or_fill [of isoDateTime pending_after_manual] by blast
  then show ?thesis
    using a b c by (simp add: list_all_iff)
qed

text \<open>
  Claim C10, as amended. A date that occurs in the forecast only has a merged row with
  \<open>hasHistory\<close> false and \<open>isPending\<close> unset, whatever actual the forecast attaches to
  it, so the row is no timeline row and is not among the rows that fix the start and
  the end of the window. A row that is no timeline row is in the result of the selector
  only if its time lies in the window from start to end, or it is in the forecast tail
  (later than the end, with a forecast value), or the selector has fallen back to the
  rows it was given because there is no timeline row or the compact rows are empty.
\<close>

theorem forecast_only_row_no_anchor:
  "(d \<in> set (map ds (forecast data)) \<and> d \<notin> set (map ds (history data))
      \<and> d \<notin> set (map ds (pending_weeks data)) \<longrightarrow>
      (\<exists>r. rowsMap_get (allRows getTime data) d = Some r \<and> hasHistory r = False
          \<and> isPending r = None \<and> hasForecast r \<and> \<not> isTimelineRow r
          \<and> r \<notin> set (timelineRows (allRows getTime data))))
   \<and> (selectWindow getTime rows historyWindow forecastWindow = Inr out \<and> x \<in> set out
        \<and> \<not> isTimelineRow x \<longrightarrow>
      (timelineRows rows \<noteq> [] \<and> x \<in> set rows
         \<and> time_le (windowStartTime getTime rows historyWindow) (rowTime getTime x)
         \<and> time_le (rowTime getTime x) (windowEndTime getTime rows))
      \<or> (timelineRows rows \<noteq> [] \<and> x \<in> set (forecastTail getTime rows forecastWindow)
         \<and> time_less (windowEndTime getTime rows) (rowTime getTime x) \<and> forecastValue x \<noteq> None)
      \<or> (out = rows
         \<and> (timelineRows rows = []
            \<or> compactBase getTime rows historyWindow @ forecastTail getTime rows forecastWindow = [])))"
proof -
  have a: "\<exists>r. rowsMap_get (allRows getTime data) d = Some r \<and> hasHistory r = False
          \<and> isPending r = None \<and> hasForecast r \<and> \<not> isTimelineRow r
          \<and> r \<notin> set (timelineRows (allRows getTime data))"
    if d: "d \<in> set (map ds (forecast data))" "d \<notin> set (map ds (history data))"
      "d \<notin> set (map ds (pending_weeks data))"
  proof -
    have "d \<in> set (datesOf data)"
      using d(1) by (simp add: datesOf_def)
    then obtain j where j: "j < length (buildRows data)" "date (allRows getTime data ! j) = d"
      "rowsMap_get (allRows getTime data) d = Some (allRows getTime data ! j)"
      using allRows_index by blast
    let ?r = "allRows getTime data ! j"
    have "hasHistory ?r = False"
      using untouched_nth_allRows [OF _ j(1), of hasHistory getTime] j(2) d(2)
      by (simp add: hasHistory_rowOf)
    moreover have "isPending ?r = None"
      using untouched_nth_allRows [OF _ j(1), of isPending getTime] j(2) d(3)
      by (simp add: isPending_rowOf)
    moreover have "hasForecast ?r"
      using untouched_nth_allRows [OF _ j(1), of hasForecast getTime] j(2) d(1)
      by (simp add: hasForecast_rowOf)
    ultimately show ?thesis
      using j(3) by (simp add: isTimelineRow_def timelineRows_def)
  qed
  have b: "(timelineRows rows \<noteq> [] \<and> x \<in> set rows
         \<and> time_le (windowStartTime getTime rows historyWindow) (rowTime getTime x)
         \<and> time_le (rowTime getTime x) (windowEndTime getTime rows))
      \<or> (timelineRows rows \<noteq> [] \<and> x \<in> set (forecastTail getTime rows forecastWindow)
         \<and> time_less (windowEndTime getTime rows) (rowTime getTime x) \<and> forecastValue x \<noteq> None)
      \<or> (out = rows
         \<and> (timelineRows rows = []
            \<or> compactBase getTime rows historyWindow @ forecastTail getTime rows forecastWindow = []))"
    if s: "selectWindow getTime rows historyWindow forecastWindow = Inr out" and x: "x \<in> set out"
  proof (cases "timelineRows rows = []")
    case True
    then show ?thesis
      using s by (simp add: selectWindow_no_timeline)
  next
    case False
    have h: "0 < historyWindow"
    proof (rule ccontr)
      assume "\<not> 0 < historyWindow"
      then have "selectWindow getTime rows historyWindow forecastWindow = Inl TypeError"
        using False by (simp add: selectWindow_TypeError)
      with s show False by simp
    qed
    let ?C = "compactBase getTime rows historyWindow @ forecastTail getTime rows forecastWindow"
    show ?thesis
    proof (cases "?C = []")
      case True
      then have "out = rows"
        using s selectWindow_window [OF False h, of getTime forecastWindow] by simp
      with True show ?thesis by simp
    next
      case nonempty: False
      then have "out = ?C"
        using s selectWindow_window [OF False h, of getTime forecastWindow] by simp
      then consider "x \<in> set (compactBase getTime rows historyWindow)"
        | "x \<in> set (forecastTail getTime rows forecastWindow)"
        using x by auto
      then show ?thesis
      proof cases
        case 1
        then show ?thesis
          using False by (simp add: compactBase_def)
      next
        case 2
        then show ?thesis
          using False forecastTail_subset [OF 2] by simp
      qed
    qed
  qed
  show ?thesis
    using a b by blast
qed

theorem forecast_only_row_no_anchor_witness:
  "''2024-01-22'' \<in> set (map ds (forecast history_then_forecast))
   \<and> ''2024-01-22'' \<notin> set (map ds (history history_then_forecast))
   \<and> ''2024-01-22'' \<notin> set (map ds (pending_weeks history_then_forecast))
   \<and> (\<exists>r. rowsMap_get (allRows isoDateTime history_then_forecast) ''2024-01-22'' = Some r
         \<and> hasHistory r = False \<and> isPending r = None \<and> hasForecast r \<and> \<not> isTimelineRow r)
   \<and> map actualReal (allRows isoDateTime history_then_forecast)
       = [Some (Finite 3), Some (Finite 5), None, Some (Finite 8), None]
   \<and> map isTimelineRow (allRows isoDateTime history_then_forecast) = [True, True, True, False, False]
   \<and> map_sum id (map date) (selectWindow isoDateTime (allRows isoDateTime history_then_forecast) 2 1)
       = Inr [''2024-01-08'', ''2024-01-15'', ''2024-01-22'']
   \<and> allRows isoDateTime history_then_forecast ! 3
       \<in> set (forecastTail isoDateTime (allRows isoDateTime history_then_forecast) 1)
   \<and> allRows isoDateTime history_then_forecast ! 3
       \<notin> set (compactBase isoDateTime (allRows isoDateTime history_then_forecast) 2)"
proof -
  let ?R = "allRows isoDateTime history_then_forecast"
  let ?out = "compactBase isoDateTime ?R 2 @ forecastTail isoDateTime ?R 1"
  have h1: "''2024-01-22'' \<in> set (map ds (forecast history_then_forecast))" by code_simp
  have h2: "''2024-01-22'' \<notin> set (map ds (history history_then_forecast))" by code_simp
  have h3: "''2024-01-22'' \<notin> set (map ds (pending_weeks history_then_forecast))" by code_simp
  have a: "map actualReal ?R = [Some (Finite 3), Some (Finite 5), None, Some (Finite 8), None]"
    by code_simp
  have t: "map isTimelineRow ?R = [True, True, True, False, False]"
    by code_simp
  have w: "map_sum id (map date) (selectWindow isoDateTime ?R 2 1)
       = Inr [''2024-01-08'', ''2024-01-15'', ''2024-01-22'']"
    by code_simp
  have s: "selectWindow isoDateTime ?R 2 1 = Inr ?out" by code_simp
  have x: "?R ! 3 \<in> set ?out" by code_simp
  have n: "\<not> isTimelineRow (?R ! 3)" by code_simp
  have c: "?R ! 3 \<notin> set (compactBase isoDateTime ?R 2)" by code_simp
  have o: "?out \<noteq> ?R" by code_simp
  note inst = forecast_only_row_no_anchor [of "''2024-01-22''" history_then_forecast isoDateTime
      ?R 2 1 ?out "?R ! 3"]
  have r: "\<exists>r. rowsMap_get ?R ''2024-01-22'' = Some r
         \<and> hasHistory r = False \<and> isPending r = None \<and> hasForecast r \<and> \<not> isTimelineRow r"
    using h1 h2 h3 inst by blast
  have "(timelineRows ?R \<noteq> [] \<and> ?R ! 3 \<in> set ?R
         \<and> time_le (windowStartTime isoDateTime ?R 2) (rowTime isoDateTime (?R ! 3))
         \<and> time_le (rowTime isoDateTime (?R ! 3)) (windowEndTime isoDateTime ?R))
      \<or> (timelineRows ?R \<noteq> [] \<and> ?R ! 3 \<in> set (forecastTail isoDateTime ?R 1)
         \<and> time_less (windowEndTime isoDateTime ?R) (rowTime isoDateTime (?R ! 3))
         \<and> forecastValue (?R ! 3) \<noteq> None)
      \<or> (?out = ?R \<and> (timelineRows ?R = [] \<or> ?out = []))"
    using s x n inst by blast
  then have f: "?R ! 3 \<in> set (forecastTail isoDateTime ?R 1)"
    using c o by (auto simp: compactBase_def)
  show ?thesis
    using h1 h2 h3 r a t w f c by (intro conjI)
qed

text \<open>
  The claim as stated lets a forecast-only row into the compact result only by date
  containment or by the forecast tail. With three forecast weeks and no history there
  is no timeline row, hence no window and no tail, and the compact result for a history
  window of 15 and a forecast window of 2 is all three forecast-only rows.
\<close>

theorem forecast_only_rows_by_fallback_counterexample:
  "timelineRows (allRows isoDateTime forecast_only) = []
   \<and> compactRows isoDateTime forecast_only 15 2 = Inr (allRows isoDateTime forecast_only)
   \<and> map date (allRows isoDateTime forecast_only) = [''2024-01-15'', ''2024-01-22'', ''2024-01-29'']
   \<and> map hasHistory (allRows isoDateTime forecast_only) = [False, False, False]
   \<and> map isPending (allRows isoDateTime forecast_only) = [None, None, None]"
  by code_simp

end
